theory Spec2Isabelle
  imports Main "HOL-Library.Sublist"
begin

text \<open>
  A model of \<^verbatim>\<open>generators/app/notebookConverter.js\<close>: the scan that counts notebook and
  markdown files of a folder or of a book, the extraction of a title from a file, and the
  build of the table of contents and of the chapter readmes. Each function of the source is
  a function here, under its own name; what it changes (the generator's registry, the log,
  the console, the file system) is passed in and returned, and what it throws is a value.
\<close>

section \<open>Strings\<close>

text \<open>
  A JavaScript string is modelled as a HOL \<^typ>\<open>string\<close>: each \<^typ>\<open>char\<close> stands for
  one code unit below 256 (the Latin-1 range). The string methods used by
  \<^verbatim>\<open>notebookConverter.js\<close> are defined on that range.
\<close>

abbreviation LF :: char where "LF \<equiv> CHR 0x0A"
abbreviation CR :: char where "CR \<equiv> CHR 0x0D"
abbreviation DQUOTE :: char where "DQUOTE \<equiv> CHR 0x22"
abbreviation SQUOTE :: char where "SQUOTE \<equiv> CHR 0x27"
abbreviation BACKSLASH :: char where "BACKSLASH \<equiv> CHR 0x5C"

text \<open>\<^verbatim>\<open>String.prototype.toLowerCase\<close>: A-Z and the upper-case letters of Latin-1 move up by 32.\<close>

definition toLowerChar :: "char \<Rightarrow> char" where
  "toLowerChar c =
     (let n = (of_char c :: nat)
      in if (65 \<le> n \<and> n \<le> 90) \<or> (192 \<le> n \<and> n \<le> 214) \<or> (216 \<le> n \<and> n \<le> 222)
         then char_of (n + 32) else c)"

definition toLowerCase :: "string \<Rightarrow> string" where
  "toLowerCase s = map toLowerChar s"

text \<open>\<^verbatim>\<open>s.indexOf(sub)\<close>: the position of the first occurrence, \<open>-1\<close> when there is none.\<close>

fun indexOf :: "string \<Rightarrow> string \<Rightarrow> int" where
  "indexOf [] sub = (if sub = [] then 0 else -1)"
| "indexOf (c # cs) sub =
     (if prefix sub (c # cs) then 0
      else (let r = indexOf cs sub in if r < 0 then -1 else r + 1))"

text \<open>\<^verbatim>\<open>data.split(/\r?\n/)\<close>: a line ends at LF or at CR LF; a lone CR stays in its line.\<close>

fun splitLines :: "string \<Rightarrow> string list" where
  "splitLines [] = [[]]"
| "splitLines [c] = (if c = LF then [[], []] else [[c]])"
| "splitLines (c # d # cs) =
     (if c = LF then [] # splitLines (d # cs)
      else if c = CR \<and> d = LF then [] # splitLines cs
      else (case splitLines (d # cs) of
              l # ls \<Rightarrow> (c # l) # ls
            | [] \<Rightarrow> [[c]]))"

text \<open>\<^verbatim>\<open>xs[i]\<close>: \<open>None\<close> is JavaScript's \<^verbatim>\<open>undefined\<close> of an index out of range.\<close>

definition elementAt :: "string list \<Rightarrow> nat \<Rightarrow> string option" where
  "elementAt xs i = (if i < length xs then Some (xs ! i) else None)"

text \<open>\<^verbatim>\<open>s.replace(/[:#"',]/g, '')\<close>\<close>

definition strippedChars :: "char list" where
  "strippedChars = [CHR '':'', CHR ''#'', DQUOTE, SQUOTE, CHR '','']"

definition stripChars :: "string \<Rightarrow> string" where
  "stripChars s = filter (\<lambda>c. c \<notin> set strippedChars) s"

text \<open>\<^verbatim>\<open>s.replace(/\\n/g, '')\<close>: one pass from the left, each backslash followed by \<open>n\<close> is dropped.\<close>

fun removeBackslashN :: "string \<Rightarrow> string" where
  "removeBackslashN (c # d # cs) =
     (if c = BACKSLASH \<and> d = CHR ''n'' then removeBackslashN cs
      else c # removeBackslashN (d # cs))"
| "removeBackslashN cs = cs"

text \<open>\<^verbatim>\<open>s.trim()\<close>: the white space and line terminators of the Latin-1 range.\<close>

definition isWhiteSpace :: "char \<Rightarrow> bool" where
  "isWhiteSpace c \<longleftrightarrow> c \<in> set [CHR 0x09, LF, CHR 0x0B, CHR 0x0C, CR, CHR 0x20, CHR 0xA0]"

definition trim :: "string \<Rightarrow> string" where
  "trim s = rev (dropWhile isWhiteSpace (rev (dropWhile isWhiteSpace s)))"

text \<open>\<^verbatim>\<open>s.slice(0, -k)\<close>: the string without its last \<open>k\<close> characters, empty when it is shorter.\<close>

definition sliceEnd :: "string \<Rightarrow> nat \<Rightarrow> string" where
  "sliceEnd s k = take (length s - k) s"

text \<open>Number to string, for the counts put into log messages.\<close>

fun showNat :: "nat \<Rightarrow> string" where
  "showNat n =
     (if n < 10 then [char_of (48 + n)]
      else showNat (n div 10) @ [char_of (48 + n mod 10)])"

text \<open>\<^verbatim>\<open>parts.join(sep)\<close>\<close>

fun joinWith :: "string \<Rightarrow> string list \<Rightarrow> string" where
  "joinWith sep [] = []"
| "joinWith sep [x] = x"
| "joinWith sep (x # y # ys) = x @ sep @ joinWith sep (y # ys)"

section \<open>The path module (POSIX flavour)\<close>

text \<open>
  \<^verbatim>\<open>path.join\<close>, \<^verbatim>\<open>path.basename\<close> and \<^verbatim>\<open>path.extname\<close> belong to the runtime, not to the
  repository. They are modelled segment by segment after the POSIX variant: segments are
  separated by \<open>/\<close>, empty and \<open>.\<close> segments vanish, \<open>..\<close> removes the segment before it.
\<close>

fun splitSep :: "string \<Rightarrow> string list" where
  "splitSep [] = [[]]"
| "splitSep (c # cs) =
     (if c = CHR ''/'' then [] # splitSep cs
      else (case splitSep cs of
              l # ls \<Rightarrow> (c # l) # ls
            | [] \<Rightarrow> [[c]]))"

text \<open>The second argument is the stack of segments kept so far, innermost first.\<close>

fun normSegs :: "bool \<Rightarrow> string list \<Rightarrow> string list \<Rightarrow> string list" where
  "normSegs allowAboveRoot res [] = rev res"
| "normSegs allowAboveRoot res (s # ss) =
     (if s = [] \<or> s = ''.'' then normSegs allowAboveRoot res ss
      else if s = ''..'' then
        (case res of
           r # rs \<Rightarrow>
             if r \<noteq> ''..'' then normSegs allowAboveRoot rs ss
             else if allowAboveRoot then normSegs allowAboveRoot (''..'' # res) ss
             else normSegs allowAboveRoot res ss
         | [] \<Rightarrow>
             if allowAboveRoot then normSegs allowAboveRoot [''..''] ss
             else normSegs allowAboveRoot [] ss)
      else normSegs allowAboveRoot (s # res) ss)"

definition normalize :: "string \<Rightarrow> string" where
  "normalize p =
     (if p = [] then ''.''
      else
        (let isAbsolute = (hd p = CHR ''/'');
             trailingSeparator = (last p = CHR ''/'');
             q = joinWith ''/'' (normSegs (\<not> isAbsolute) [] (splitSep p))
         in if q = [] then (if isAbsolute then ''/'' else if trailingSeparator then ''./'' else ''.'')
            else (let q' = (if trailingSeparator then q @ ''/'' else q)
                  in if isAbsolute then CHR ''/'' # q' else q')))"

definition join :: "string list \<Rightarrow> string" where
  "join args =
     (let parts = filter (\<lambda>a. a \<noteq> []) args
      in if parts = [] then ''.'' else normalize (joinWith ''/'' parts))"

definition basename :: "string \<Rightarrow> string" where
  "basename p =
     (let segs = filter (\<lambda>s. s \<noteq> []) (splitSep p)
      in if segs = [] then [] else last segs)"

text \<open>
  \<^verbatim>\<open>path.extname\<close>: from the last dot of the last segment to its end; empty when that
  segment has no dot, starts with its only dot, or is \<open>..\<close>.
\<close>

definition extname :: "string \<Rightarrow> string" where
  "extname p =
     (let b = basename p;
          afterDot = takeWhile (\<lambda>c. c \<noteq> CHR ''.'') (rev b);
          uptoDot = dropWhile (\<lambda>c. c \<noteq> CHR ''.'') (rev b)
      in if uptoDot = [] then []
         else if tl uptoDot = [] then []
         else if b = ''..'' then []
         else CHR ''.'' # rev afterDot)"

section \<open>The file system\<close>

text \<open>
  The synchronous calls of the \<^verbatim>\<open>fs\<close> module work on a file system given as a map
  from a resolved path (its list of segments below the root) to what is there: a file with
  its text, or a directory with its listing in the order \<^verbatim>\<open>readdirSync\<close> reports. The
  working directory of the process is the root, names are compared as they are written,
  links and permissions are left out, and a path is resolved lexically. A call that fails
  in the runtime returns the error it throws, with the message of the runtime.
\<close>

datatype entry = FileE string | DirE "string list"

type_synonym filesystem = "string list \<Rightarrow> entry option"

datatype error = SystemError string | TypeError string

fun message :: "error \<Rightarrow> string" where
  "message (SystemError m) = m"
| "message (TypeError m) = m"

definition resolve :: "string \<Rightarrow> string list" where
  "resolve p = normSegs False [] (splitSep p)"

definition enoent :: "string \<Rightarrow> string \<Rightarrow> error" where
  "enoent syscall p =
     SystemError (''ENOENT: no such file or directory, '' @ syscall @ '' '' @ [SQUOTE] @ p @ [SQUOTE])"

definition enotdir :: "string \<Rightarrow> string \<Rightarrow> error" where
  "enotdir syscall p =
     SystemError (''ENOTDIR: not a directory, '' @ syscall @ '' '' @ [SQUOTE] @ p @ [SQUOTE])"

definition eisdir :: "string \<Rightarrow> string \<Rightarrow> error" where
  "eisdir syscall p =
     SystemError (''EISDIR: illegal operation on a directory, '' @ syscall @ '' '' @ [SQUOTE] @ p @ [SQUOTE])"

definition lookupPath :: "filesystem \<Rightarrow> string \<Rightarrow> entry option" where
  "lookupPath fs p = (if p = [] then None else fs (resolve p))"

text \<open>\<^verbatim>\<open>fs.statSync(p).isDirectory()\<close>\<close>

definition statSync :: "filesystem \<Rightarrow> string \<Rightarrow> error + bool" where
  "statSync fs p =
     (case lookupPath fs p of
        None \<Rightarrow> Inl (enoent ''stat'' p)
      | Some (FileE d) \<Rightarrow> Inr False
      | Some (DirE names) \<Rightarrow> Inr True)"

definition readdirSync :: "filesystem \<Rightarrow> string \<Rightarrow> error + string list" where
  "readdirSync fs p =
     (case lookupPath fs p of
        None \<Rightarrow> Inl (enoent ''scandir'' p)
      | Some (FileE d) \<Rightarrow> Inl (enotdir ''scandir'' p)
      | Some (DirE names) \<Rightarrow> Inr names)"

definition readFileSync :: "filesystem \<Rightarrow> string \<Rightarrow> error + string" where
  "readFileSync fs p =
     (case lookupPath fs p of
        None \<Rightarrow> Inl (enoent ''open'' p)
      | Some (FileE d) \<Rightarrow> Inr d
      | Some (DirE names) \<Rightarrow> Inl (SystemError ''EISDIR: illegal operation on a directory, read''))"

text \<open>
  \<^verbatim>\<open>fs.writeFileSync(p, text)\<close> replaces the text of an existing file; it creates a missing
  file in an existing directory, whose listing gains the name at its end.
\<close>

definition writeFileSync :: "filesystem \<Rightarrow> string \<Rightarrow> string \<Rightarrow> error + filesystem" where
  "writeFileSync fs p text =
     (if p = [] then Inl (enoent ''open'' p)
      else
        (let r = resolve p
         in case fs r of
              Some (DirE names) \<Rightarrow> Inl (eisdir ''open'' p)
            | Some (FileE d) \<Rightarrow> Inr (fs(r \<mapsto> FileE text))
            | None \<Rightarrow>
                (if r = [] then Inl (eisdir ''open'' p)
                 else
                   (case fs (butlast r) of
                      Some (DirE names) \<Rightarrow>
                        Inr (fs(butlast r \<mapsto> DirE (names @ [last r]), r \<mapsto> FileE text))
                    | Some (FileE d) \<Rightarrow> Inl (enotdir ''open'' p)
                    | None \<Rightarrow> Inl (enoent ''open'' p)))))"

section \<open>Title extraction\<close>

definition undefinedReading :: "string \<Rightarrow> error" where
  "undefinedReading prop =
     TypeError (''Cannot read properties of undefined (reading '' @ [SQUOTE] @ prop @ [SQUOTE] @ '')'')"

text \<open>
  \<^verbatim>\<open>findTitle(file, filePath)\<close>. The result \<open>Inr None\<close> is the function ending without a
  \<^verbatim>\<open>return\<close> (the value \<^verbatim>\<open>undefined\<close>); \<open>Inl\<close> is what it throws.
\<close>

definition cleanTitle :: "string \<Rightarrow> string" where
  "cleanTitle line = trim (removeBackslashN (stripChars line))"

definition findTitle :: "filesystem \<Rightarrow> string \<Rightarrow> string \<Rightarrow> error + string option" where
  "findTitle fs file filePath =
     (case readFileSync fs filePath of
        Inl e \<Rightarrow> Inl e
      | Inr data \<Rightarrow>
          (let lines = splitLines data
           in if elementAt lines 0 = Some []
                 \<or> (7 \<le> length lines
                     \<and> (case elementAt lines 6 of Some l \<Rightarrow> -1 < indexOf l ''collapsed'' | None \<Rightarrow> False))
              then Inr (Some ''Untitled'')
              else if extname file = ''.ipynb'' then
                (case elementAt lines 6 of
                   None \<Rightarrow> Inl (undefinedReading ''replace'')
                 | Some l \<Rightarrow> Inr (Some (cleanTitle l)))
              else if extname file = ''.md'' then
                (case elementAt lines 0 of
                   None \<Rightarrow> Inl (undefinedReading ''replace'')
                 | Some l \<Rightarrow> Inr (Some (cleanTitle l)))
              else Inr None))"

text \<open>\<^verbatim>\<open>getSlicedFilename(fileName)\<close>\<close>

definition getSlicedFilename :: "string \<Rightarrow> string" where
  "getSlicedFilename fileName =
     (if extname fileName = ''.ipynb'' then sliceEnd fileName 6 else sliceEnd fileName 3)"

section \<open>Counting notebooks\<close>

text \<open>
  What the scans change besides the file system: the three sequences of
  \<^verbatim>\<open>generator.extensionConfig\<close>, the lines given to \<^verbatim>\<open>generator.log\<close> and the lines
  given to \<^verbatim>\<open>console.log\<close>. A sequence is \<open>None\<close> when the property is
  \<^verbatim>\<open>undefined\<close>, so that \<^verbatim>\<open>push\<close> on it throws.
\<close>

record state =
  notebookNames :: "string list option"
  notebookPaths :: "string list option"
  notebookFolders :: "string list option"
  logged :: "string list"
  console :: "string list"

definition push :: "string list option \<Rightarrow> string \<Rightarrow> error + string list" where
  "push array v =
     (case array of
        None \<Rightarrow> Inl (undefinedReading ''push'')
      | Some xs \<Rightarrow> Inr (xs @ [v]))"

definition log :: "state \<Rightarrow> string \<Rightarrow> state" where
  "log st line = st\<lparr>logged := logged st @ [line]\<rparr>"

definition consoleLog :: "state \<Rightarrow> string \<Rightarrow> state" where
  "consoleLog st line = st\<lparr>console := console st @ [line]\<rparr>"

text \<open>\<^verbatim>\<open>os.EOL\<close>\<close>

definition EOL :: string where
  "EOL = [LF]"

text \<open>
  \<^verbatim>\<open>getFolderContent(folderPath, errors)\<close>. The collector \<open>errors\<close> is \<open>None\<close> when the
  caller passes none; the result carries the collector as the call leaves it.
\<close>

definition getFolderContent ::
  "filesystem \<Rightarrow> string \<Rightarrow> string list option \<Rightarrow> error + (string list \<times> string list option)" where
  "getFolderContent fs folderPath errors =
     (case (case statSync fs folderPath of
              Inl e \<Rightarrow> Inl e
            | Inr isDirectory \<Rightarrow> if isDirectory then readdirSync fs folderPath else Inr []) of
        Inr names \<Rightarrow> Inr (names, errors)
      | Inl e \<Rightarrow>
          (case push errors (''Unable to access '' @ folderPath @ '': '' @ message e) of
             Inl e' \<Rightarrow> Inl e'
           | Inr errors' \<Rightarrow> Inr ([], Some errors')))"

text \<open>The body of the \<^verbatim>\<open>forEach\<close> of \<^verbatim>\<open>findNotebookFiles\<close>, with its \<^verbatim>\<open>try\<close> and \<^verbatim>\<open>catch\<close>.\<close>

definition countNotebookFile :: "string \<Rightarrow> nat \<times> state \<Rightarrow> string \<Rightarrow> nat \<times> state" where
  "countNotebookFile folderPath acc fileName =
     (let notebookCount = fst acc; st = snd acc;
          extension = toLowerCase (extname fileName)
      in if extension = ''.ipynb'' \<or> extension = ''.md'' then
           (let filePath = join [folderPath, fileName]
            in case push (notebookNames st) fileName of
                 Inl e \<Rightarrow>
                   (notebookCount + 1,
                    consoleLog st (''Finding notebook files encountered an error: '' @ message e))
               | Inr names \<Rightarrow>
                   (let st1 = st\<lparr>notebookNames := Some names\<rparr>
                    in case push (notebookPaths st1) filePath of
                         Inl e \<Rightarrow>
                           (notebookCount + 1,
                            consoleLog st1 (''Finding notebook files encountered an error: '' @ message e))
                       | Inr paths \<Rightarrow> (notebookCount + 1, st1\<lparr>notebookPaths := Some paths\<rparr>)))
         else (notebookCount, st))"

definition findNotebookFiles ::
  "filesystem \<Rightarrow> string \<Rightarrow> string list option \<Rightarrow> state \<Rightarrow> error + (nat \<times> string list option \<times> state)" where
  "findNotebookFiles fs folderPath errors st =
     (case getFolderContent fs folderPath errors of
        Inl e \<Rightarrow> Inl e
      | Inr (files, errors') \<Rightarrow>
          (let r = foldl (countNotebookFile folderPath) (0, st) files
           in Inr (fst r, errors', snd r)))"

text \<open>
  \<^verbatim>\<open>errors.length > 0 ? prefix + errors.join(sep) : ''\<close>, the tail of every log message.
\<close>

definition problems :: "string \<Rightarrow> string \<Rightarrow> string list option \<Rightarrow> error + string" where
  "problems pre sep errors =
     (case errors of
        None \<Rightarrow> Inl (undefinedReading ''length'')
      | Some es \<Rightarrow> Inr (if length es > 0 then pre @ joinWith sep es else []))"

text \<open>
  \<^verbatim>\<open>processNotebookFolder(folderPath, generator)\<close>: the first component is the value
  returned or the error thrown, the second the state left behind.
\<close>

definition processNotebookFolder :: "filesystem \<Rightarrow> string \<Rightarrow> state \<Rightarrow> (error + nat) \<times> state" where
  "processNotebookFolder fs folderPath st =
     (case findNotebookFiles fs folderPath (Some []) st of
        Inl e \<Rightarrow> (Inl e, st)
      | Inr (count, errors, st1) \<Rightarrow>
          if count \<le> 0 then
            (case problems (''.'' @ [LF]) EOL errors of
               Inl e \<Rightarrow> (Inl e, st1)
             | Inr t \<Rightarrow> (Inr count, log st1 (''No valid notebooks found in '' @ folderPath @ t)))
          else
            (case problems ([LF, LF] @ ''Problems while converting: '' @ [LF]) EOL errors of
               Inl e \<Rightarrow> (Inl e, st1)
             | Inr t \<Rightarrow> (Inr count, log st1 (showNat count @ '' notebook(s) found.'' @ t))))"

text \<open>
  The \<^verbatim>\<open>forEach\<close> of \<^verbatim>\<open>discoverFoldersContainingNotebooks\<close>. Nothing in it catches, so
  the first error ends the loop and leaves the state as it is at that moment.
\<close>

fun discoverLoop ::
  "filesystem \<Rightarrow> string \<Rightarrow> string list \<Rightarrow> nat \<Rightarrow> string list option \<Rightarrow> state
     \<Rightarrow> (error + nat) \<times> string list option \<times> state" where
  "discoverLoop fs rootFolder [] totalNotebookCount errors st = (Inr totalNotebookCount, errors, st)"
| "discoverLoop fs rootFolder (dir # dirs) totalNotebookCount errors st =
     (let dirPath = join [rootFolder, dir]
      in case findNotebookFiles fs dirPath errors st of
           Inl e \<Rightarrow> (Inl e, errors, st)
         | Inr (n, errors1, st1) \<Rightarrow>
             (case push (notebookFolders st1) dir of
                Inl e \<Rightarrow> (Inl e, errors1, st1)
              | Inr folders \<Rightarrow>
                  discoverLoop fs rootFolder dirs (totalNotebookCount + n) errors1
                    (st1\<lparr>notebookFolders := Some folders\<rparr>)))"

text \<open>The root is listed with no collector: \<^verbatim>\<open>getFolderContent(rootFolder)\<close>.\<close>

definition discoverFoldersContainingNotebooks ::
  "filesystem \<Rightarrow> string \<Rightarrow> string list option \<Rightarrow> state \<Rightarrow> (error + nat) \<times> string list option \<times> state" where
  "discoverFoldersContainingNotebooks fs rootFolder errors st =
     (case getFolderContent fs rootFolder None of
        Inl e \<Rightarrow> (Inl e, errors, st)
      | Inr (subfolders, unused) \<Rightarrow> discoverLoop fs rootFolder subfolders 0 errors st)"

text \<open>
  \<^verbatim>\<open>processBookFolder(folderPath, generator)\<close>: the value is \<open>None\<close> when the function
  ends in its \<^verbatim>\<open>catch\<close>, which returns nothing.
\<close>

definition processBookFolder :: "filesystem \<Rightarrow> string \<Rightarrow> state \<Rightarrow> nat option \<times> state" where
  "processBookFolder fs folderPath st =
     (case problems ([LF, LF] @ ''Problems while converting: '' @ [LF]) [LF] (Some []) of
        Inl e \<Rightarrow> (None, log st (''An unexpected error occurred: '' @ message e))
      | Inr t0 \<Rightarrow>
          (let st0 = log st (''Jupyter Book found!'' @ t0)
           in case discoverFoldersContainingNotebooks fs folderPath (Some []) st0 of
                (Inl e, errors, st1) \<Rightarrow> (None, log st1 (''An unexpected error occurred: '' @ message e))
              | (Inr count, errors, st1) \<Rightarrow>
                  (case problems ([LF, LF] @ ''Problems while converting: '' @ [LF]) [LF] errors of
                     Inl e \<Rightarrow> (None, log st1 (''An unexpected error occurred: '' @ message e))
                   | Inr t \<Rightarrow> (Some count, log st1 (showNat count @ '' notebook(s) found! '' @ t)))))"

section \<open>Building the table of contents\<close>

text \<open>
  The \<^verbatim>\<open>context\<close> argument: \<open>chapterNames\<close> is \<open>None\<close> when the property is missing, which
  the test \<^verbatim>\<open>if (context.chapterNames)\<close> takes as false.
\<close>

record bookContext =
  chapterNames :: "string list option"

text \<open>A template literal prints \<^verbatim>\<open>undefined\<close> as that word.\<close>

definition showValue :: "string option \<Rightarrow> string" where
  "showValue v = (case v of None \<Rightarrow> ''undefined'' | Some s \<Rightarrow> s)"

text \<open>The \<^verbatim>\<open>forEach\<close> of \<^verbatim>\<open>writeForEachNotebook\<close>; the first error ends it.\<close>

fun writeForEachNotebookLoop ::
  "filesystem \<Rightarrow> string \<Rightarrow> string \<Rightarrow> string list \<Rightarrow> string \<Rightarrow> error + string" where
  "writeForEachNotebookLoop fs chapter notebookDir [] content = Inr content"
| "writeForEachNotebookLoop fs chapter notebookDir (file # notebooks) content =
     (if indexOf file ''readme'' = -1 then
        (let fullFilePath = join [notebookDir, file];
             fileName = basename file;
             slicedFileName = getSlicedFilename fileName
         in case findTitle fs file fullFilePath of
              Inl e \<Rightarrow> Inl e
            | Inr title \<Rightarrow>
                writeForEachNotebookLoop fs chapter notebookDir notebooks
                  (content @ ''  - title: '' @ showValue title @ [LF]
                     @ ''    url: '' @ toLowerCase chapter @ ''/'' @ toLowerCase slicedFileName @ [LF]))
      else writeForEachNotebookLoop fs chapter notebookDir notebooks content)"

definition writeForEachNotebook :: "filesystem \<Rightarrow> string \<Rightarrow> string \<Rightarrow> error + string" where
  "writeForEachNotebook fs chapter notebookDir =
     (case readdirSync fs notebookDir of
        Inl e \<Rightarrow> Inl e
      | Inr notebooks \<Rightarrow> writeForEachNotebookLoop fs chapter notebookDir notebooks [])"

definition writeSingleNotebook :: "filesystem \<Rightarrow> string \<Rightarrow> string \<Rightarrow> error + string" where
  "writeSingleNotebook fs notebookDir file =
     (let fullFilePath = join [notebookDir, file];
          fileName = basename file;
          slicedFileName = getSlicedFilename fileName
      in case findTitle fs file fullFilePath of
           Inl e \<Rightarrow> Inl e
         | Inr title \<Rightarrow>
             Inr (''- title: '' @ showValue title @ [LF]
                    @ ''  url: '' @ toLowerCase slicedFileName @ [LF]))"

text \<open>The \<^verbatim>\<open>forEach\<close> of \<^verbatim>\<open>writeToReadme\<close>.\<close>

fun writeToReadmeLoop :: "filesystem \<Rightarrow> string \<Rightarrow> string list \<Rightarrow> string \<Rightarrow> error + string" where
  "writeToReadmeLoop fs contentFilePath [] fileContent = Inr fileContent"
| "writeToReadmeLoop fs contentFilePath (file # rest) fileContent =
     (if indexOf file ''readme'' = -1 then
        (let fullFilePath = join [contentFilePath, file]
         in case findTitle fs file fullFilePath of
              Inl e \<Rightarrow> Inl e
            | Inr title \<Rightarrow>
                writeToReadmeLoop fs contentFilePath rest
                  (fileContent @ ''- ['' @ showValue title @ '']('' @ file @ '')'' @ [LF]))
      else writeToReadmeLoop fs contentFilePath rest fileContent)"

text \<open>The text \<^verbatim>\<open>writeToReadme\<close> builds before it writes.\<close>

definition readmeText :: "filesystem \<Rightarrow> string \<Rightarrow> error + string" where
  "readmeText fs contentFilePath =
     (case readdirSync fs contentFilePath of
        Inl e \<Rightarrow> Inl e
      | Inr names \<Rightarrow>
          writeToReadmeLoop fs contentFilePath names (''## Notebooks in this Chapter'' @ [LF]))"

definition writeToReadme :: "filesystem \<Rightarrow> string \<Rightarrow> string \<Rightarrow> error + filesystem" where
  "writeToReadme fs contentFilePath file =
     (let readmeFilePath = join [''.'', ''content'', file, ''readme.md'']
      in case readmeText fs contentFilePath of
           Inl e \<Rightarrow> Inl e
         | Inr fileContent \<Rightarrow> writeFileSync fs readmeFilePath fileContent)"

text \<open>
  What the loop of \<^verbatim>\<open>customizeJupyterBook\<close> carries along: its two variables, the file
  system, and the lines its \<^verbatim>\<open>catch\<close> has printed.
\<close>

record tocState =
  tocContent :: string
  idx :: nat
  disk :: filesystem
  printed :: "string list"

text \<open>The body of that loop for one entry of \<^verbatim>\<open>./content\<close>, with its \<^verbatim>\<open>try\<close> and \<^verbatim>\<open>catch\<close>.\<close>

definition tocEntry :: "bookContext \<Rightarrow> tocState \<Rightarrow> string \<Rightarrow> tocState" where
  "tocEntry ctx s file =
     (let bookContentPath = join [''.'', ''content''];
          dirPath = join [bookContentPath, file]
      in case statSync (disk s) dirPath of
           Inl e \<Rightarrow> s\<lparr>printed := printed s @ [message e]\<rparr>
         | Inr isDirectory \<Rightarrow>
             if isDirectory then
               (case chapterNames ctx of
                  None \<Rightarrow> s
                | Some names \<Rightarrow>
                    (let chapterFilePath = join [''.'', ''content'', file];
                         chapterTitle = elementAt names (idx s);
                         s1 = s\<lparr>tocContent := tocContent s
                                @ ''- title: '' @ showValue chapterTitle @ [LF]
                                @ ''  url: '' @ file @ ''/readme'' @ [LF]
                                @ ''  not_numbered: true'' @ [LF]
                                @ ''  expand_sections: true'' @ [LF]
                                @ ''  sections: '' @ [LF]\<rparr>
                     in case writeForEachNotebook (disk s1) file chapterFilePath of
                          Inl e \<Rightarrow> s1\<lparr>printed := printed s1 @ [message e]\<rparr>
                        | Inr nested \<Rightarrow>
                            (let s2 = s1\<lparr>tocContent := tocContent s1 @ nested\<rparr>
                             in case writeToReadme (disk s2) chapterFilePath file of
                                  Inl e \<Rightarrow> s2\<lparr>printed := printed s2 @ [message e]\<rparr>
                                | Inr fs' \<Rightarrow> s2\<lparr>disk := fs', idx := idx s2 + 1\<rparr>)))
             else
               (case writeSingleNotebook (disk s) bookContentPath file of
                  Inl e \<Rightarrow> s\<lparr>printed := printed s @ [message e]\<rparr>
                | Inr flat \<Rightarrow> s\<lparr>tocContent := tocContent s @ flat\<rparr>))"

text \<open>
  \<^verbatim>\<open>customizeJupyterBook(context)\<close>: the error it throws, if any, the file system it
  leaves, and the lines it has printed.
\<close>

definition customizeJupyterBook ::
  "bookContext \<Rightarrow> filesystem \<Rightarrow> error option \<times> filesystem \<times> string list" where
  "customizeJupyterBook ctx fs =
     (let tocFilePath = join [''.'', ''_data'', ''toc.yml''];
          bookContentPath = join [''.'', ''content'']
      in case readdirSync fs bookContentPath of
           Inl e \<Rightarrow> (Some e, fs, [])
         | Inr bookContents \<Rightarrow>
             (let s = foldl (tocEntry ctx)
                        \<lparr>tocContent = [], idx = 0, disk = fs, printed = []\<rparr> bookContents
              in case writeFileSync (disk s) tocFilePath (tocContent s) of
                   Inl e \<Rightarrow> (Some e, disk s, printed s)
                 | Inr fs' \<Rightarrow> (None, fs', printed s)))"

text \<open>\<^verbatim>\<open>buildCustomBook(context)\<close>\<close>

definition buildCustomBook :: "bookContext \<Rightarrow> filesystem \<Rightarrow> filesystem \<times> string list" where
  "buildCustomBook ctx fs =
     (case customizeJupyterBook ctx fs of
        (None, fs', out) \<Rightarrow> (fs', out)
      | (Some e, fs', out) \<Rightarrow> (fs', out @ [''An unexpected error occurred: '' @ message e]))"

section \<open>Vocabulary of the properties\<close>

text \<open>
  A file counts as a notebook when its extension, compared without regard to case, is
  \<open>.ipynb\<close> or \<open>.md\<close>.
\<close>

definition isNotebookFile :: "string \<Rightarrow> bool" where
  "isNotebookFile fileName \<longleftrightarrow> toLowerCase (extname fileName) \<in> {''.ipynb'', ''.md''}"

text \<open>The listing of a folder, empty for anything that is not a directory.\<close>

definition folderListing :: "filesystem \<Rightarrow> string \<Rightarrow> string list" where
  "folderListing fs p =
     (case lookupPath fs p of
        Some (DirE names) \<Rightarrow> names
      | Some (FileE d) \<Rightarrow> []
      | None \<Rightarrow> [])"

definition notebooksIn :: "filesystem \<Rightarrow> string \<Rightarrow> string list" where
  "notebooksIn fs p = filter isNotebookFile (folderListing fs p)"

text \<open>The error strings a scan of one folder adds to its collector.\<close>

definition accessErrors :: "filesystem \<Rightarrow> string \<Rightarrow> string list" where
  "accessErrors fs p =
     (case lookupPath fs p of
        None \<Rightarrow> [''Unable to access '' @ p @ '': '' @ message (enoent ''stat'' p)]
      | Some x \<Rightarrow> [])"

text \<open>The registry invariant: both sequences exist and have the same length.\<close>

definition registryAligned :: "state \<Rightarrow> bool" where
  "registryAligned st =
     (case notebookNames st of
        None \<Rightarrow> False
      | Some ns \<Rightarrow> (case notebookPaths st of None \<Rightarrow> False | Some ps \<Rightarrow> length ns = length ps))"

text \<open>
  A name as a directory listing reports it: not empty, without separator, and neither of
  the two dot entries.
\<close>

definition validName :: "string \<Rightarrow> bool" where
  "validName n \<longleftrightarrow> n \<noteq> [] \<and> CHR ''/'' \<notin> set n \<and> n \<noteq> ''.'' \<and> n \<noteq> ''..''"

definition wellNamed :: "filesystem \<Rightarrow> bool" where
  "wellNamed fs \<longleftrightarrow> (\<forall>p names. fs p = Some (DirE names) \<longrightarrow> (\<forall>n\<in>set names. validName n))"

text \<open>The test both chapter loops apply to a name: \<^verbatim>\<open>file.indexOf('readme') === -1\<close>.\<close>

definition noReadme :: "string \<Rightarrow> bool" where
  "noReadme f \<longleftrightarrow> indexOf f ''readme'' = -1"

definition isDirE :: "entry option \<Rightarrow> bool" where
  "isDirE x = (case x of Some (DirE names) \<Rightarrow> True | Some (FileE d) \<Rightarrow> False | None \<Rightarrow> False)"

text \<open>
  Two file systems give the table-of-contents build the same input when they agree on what
  it reads: the listing of \<open>content\<close>, the kind of each entry of \<open>content\<close> and, for a
  chapter, its listing without the names containing \<open>readme\<close>, the files below the
  chapters other than those, and whether a chapter's \<open>readme.md\<close> is a directory.
\<close>

definition sameKind :: "entry option \<Rightarrow> entry option \<Rightarrow> bool" where
  "sameKind x y \<longleftrightarrow>
     x = y \<or> (\<exists>ns ms. x = Some (DirE ns) \<and> y = Some (DirE ms)
                \<and> filter noReadme ns = filter noReadme ms)"

definition agree :: "filesystem \<Rightarrow> filesystem \<Rightarrow> bool" where
  "agree a b \<longleftrightarrow>
     a [''content''] = b [''content'']
     \<and> (\<forall>e. sameKind (a [''content'', e]) (b [''content'', e]))
     \<and> (\<forall>e n. noReadme n \<longrightarrow> a [''content'', e, n] = b [''content'', e, n])
     \<and> (\<forall>e. isDirE (a [''content'', e, ''readme.md'']) = isDirE (b [''content'', e, ''readme.md'']))"

text \<open>Whether the loop body reaches \<^verbatim>\<open>writeToReadme\<close> for an entry, and the file system after it.\<close>

definition attemptsReadme :: "bookContext \<Rightarrow> filesystem \<Rightarrow> string \<Rightarrow> bool" where
  "attemptsReadme ctx fs e \<longleftrightarrow>
     statSync fs (join [join [''.'', ''content''], e]) = Inr True
     \<and> chapterNames ctx \<noteq> None
     \<and> (\<exists>nested. writeForEachNotebook fs e (join [''.'', ''content'', e]) = Inr nested)"

definition afterEntry :: "bookContext \<Rightarrow> filesystem \<Rightarrow> string \<Rightarrow> filesystem" where
  "afterEntry ctx fs e =
     (if attemptsReadme ctx fs e then
        (case writeToReadme fs (join [''.'', ''content'', e]) e of
           Inl x \<Rightarrow> fs
         | Inr fs' \<Rightarrow> fs')
      else fs)"

text \<open>An entry is settled when handling it again would write what is already there.\<close>

definition settled :: "bookContext \<Rightarrow> filesystem \<Rightarrow> string \<Rightarrow> bool" where
  "settled ctx fs e \<longleftrightarrow>
     (attemptsReadme ctx fs e \<longrightarrow>
        (\<forall>c. readmeText fs (join [''.'', ''content'', e]) = Inr c \<longrightarrow>
           fs [''content'', e, ''readme.md''] = Some (FileE c)
           \<or> isDirE (fs [''content'', e, ''readme.md''])))"

definition sameProgress :: "tocState \<Rightarrow> tocState \<Rightarrow> bool" where
  "sameProgress s t \<longleftrightarrow> tocContent s = tocContent t \<and> idx s = idx t \<and> printed s = printed t"

section \<open>Sample inputs\<close>

definition bookFs :: filesystem where
  "bookFs = Map.empty
     ([] \<mapsto> DirE [''book'', ''notes.md''],
      [''notes.md''] \<mapsto> FileE ''# Notes'',
      [''book''] \<mapsto> DirE [''ch1'', ''ch2'', ''cover.png''],
      [''book'', ''cover.png''] \<mapsto> FileE ''png'',
      [''book'', ''ch1''] \<mapsto> DirE [''a.ipynb'', ''B.MD'', ''c.txt'', ''d.Ipynb''],
      [''book'', ''ch2''] \<mapsto> DirE [''readme.md''])"

definition emptyState :: state where
  "emptyState = \<lparr>notebookNames = Some [], notebookPaths = Some [], notebookFolders = Some [],
     logged = [], console = []\<rparr>"

definition notebookText :: string where
  "notebookText = joinWith [LF]
     [''{'', '' cells: ['', ''  {'', ''   cell_type: code,'', ''   execution_count: 1,'',
      ''   metadata: {'', ''    '' @ [DQUOTE] @ ''collapsed'' @ [DQUOTE] @ '': true'', ''   }'']"

definition tocFs :: "string \<Rightarrow> string \<Rightarrow> filesystem" where
  "tocFs intro standalone = Map.empty
     ([] \<mapsto> DirE [''_data'', ''content''],
      [''_data''] \<mapsto> DirE [],
      [''content''] \<mapsto> DirE [''ch1'', ''standalone.md''],
      [''content'', ''ch1''] \<mapsto> DirE [''intro.md''],
      [''content'', ''ch1'', ''intro.md''] \<mapsto> FileE intro,
      [''content'', ''standalone.md''] \<mapsto> FileE standalone)"

definition sampleContext :: bookContext where
  "sampleContext = \<lparr>chapterNames = Some [''Chapter One'']\<rparr>"

definition collapsedIntro :: string where
  "collapsedIntro = ''# Intro'' @ [LF, LF, LF, LF, LF, LF] @ ''collapsed''"

definition untitledToc :: string where
  "untitledToc = ''- title: Chapter One'' @ [LF] @ ''  url: ch1/readme'' @ [LF]
     @ ''  not_numbered: true'' @ [LF] @ ''  expand_sections: true'' @ [LF] @ ''  sections: '' @ [LF]
     @ ''  - title: Untitled'' @ [LF] @ ''    url: ch1/intro'' @ [LF]
     @ ''- title: Standalone'' @ [LF] @ ''  url: standalone'' @ [LF]"

definition plainIntro :: string where
  "plainIntro = ''# Intro'' @ [LF] @ ''Some text.''"

definition plainStandalone :: string where
  "plainStandalone = ''# Standalone'' @ [LF]"

definition titledNotebook :: string where
  "titledNotebook =
     ''{'' @ [CR, LF]
     @ '' '' @ [DQUOTE] @ ''cells'' @ [DQUOTE] @ '': ['' @ [CR, LF]
     @ ''  {'' @ [LF]
     @ ''   '' @ [DQUOTE] @ ''cell_type'' @ [DQUOTE] @ '': '' @ [DQUOTE] @ ''markdown'' @ [DQUOTE] @ '','' @ [LF]
     @ ''   '' @ [DQUOTE] @ ''metadata'' @ [DQUOTE] @ '': {},'' @ [CR, LF]
     @ ''   '' @ [DQUOTE] @ ''source'' @ [DQUOTE] @ '': ['' @ [LF]
     @ ''    '' @ [DQUOTE] @ ''# Sales: '' @ [BACKSLASH] @ ''nQ1'' @ [BACKSLASH] @ ''n'' @ [DQUOTE] @ '','' @ [CR, LF]
     @ ''   ]''"

definition titledFs :: filesystem where
  "titledFs = Map.empty([''sales.ipynb''] \<mapsto> FileE titledNotebook)"

definition draftNotebook :: string where
  "draftNotebook = ''{'' @ [LF] @ '' cells: []'' @ [LF] @ ''}''"

definition draftFs :: filesystem where
  "draftFs = Map.empty([''draft.ipynb''] \<mapsto> FileE draftNotebook)"

section \<open>Facts about the string operations\<close>

lemma splitLines_nonempty: "splitLines s \<noteq> []"
  by (induction s rule: splitLines.induct) (auto split: list.splits)

lemma splitLines_single: "LF \<notin> set a \<Longrightarrow> splitLines a = [a]"
  by (induction a rule: splitLines.induct) (auto split: list.splits)

lemma splitLines_LF_Cons: "splitLines (LF # b) = [] # splitLines b"
  by (cases b) auto

text \<open>A line feed ends the line before it, unless a carriage return stands in between.\<close>

lemma splitLines_LF:
  "LF \<notin> set a \<Longrightarrow> a = [] \<or> last a \<noteq> CR \<Longrightarrow> splitLines (a @ LF # b) = a # splitLines b"
proof (induction a rule: splitLines.induct)
  case 1
  then show ?case by (simp add: splitLines_LF_Cons)
next
  case (2 c)
  then show ?case by (auto simp: splitLines_LF_Cons)
next
  case (3 c d cs)
  then show ?case by (auto split: list.splits)
qed

text \<open>Carriage return and line feed together end the line as well.\<close>

lemma splitLines_CRLF:
  "LF \<notin> set a \<Longrightarrow> splitLines (a @ CR # LF # b) = a # splitLines b"
proof (induction a rule: splitLines.induct)
  case 1
  then show ?case by simp
next
  case (2 c)
  then show ?case by auto
next
  case (3 c d cs)
  then show ?case by (auto split: list.splits)
qed

lemma indexOf_ge: "-1 \<le> indexOf s sub"
  by (induction s) (auto simp: Let_def)

text \<open>\<^verbatim>\<open>s.indexOf(sub) > -1\<close> says that \<open>sub\<close> occurs in \<open>s\<close>.\<close>

lemma indexOf_sublist: "-1 < indexOf s sub \<longleftrightarrow> sublist sub s"
proof (induction s)
  case Nil
  then show ?case by simp
next
  case (Cons c cs)
  have "-1 \<le> indexOf cs sub" by (rule indexOf_ge)
  then show ?case using Cons
    by (auto simp: Let_def sublist_Cons_right)
qed

lemma indexOf_absent: "indexOf s sub = -1 \<longleftrightarrow> \<not> sublist sub s"
  using indexOf_sublist [of s sub] indexOf_ge [of s sub] by linarith

lemma elementAt_0: "elementAt (splitLines s) 0 = Some (splitLines s ! 0)"
  using splitLines_nonempty [of s] by (simp add: elementAt_def)

lemma removeBackslashN_none:
  "\<not> sublist [BACKSLASH, CHR ''n''] a \<Longrightarrow> removeBackslashN a = a"
proof (induction a rule: removeBackslashN.induct)
  case (1 c d cs)
  then show ?case by (auto simp: sublist_Cons_right)
qed simp_all

text \<open>The first backslash-n of a string goes, and the pass continues behind it.\<close>

lemma removeBackslashN_first:
  "\<not> sublist [BACKSLASH, CHR ''n''] a \<Longrightarrow>
     removeBackslashN (a @ BACKSLASH # CHR ''n'' # b) = a @ removeBackslashN b"
proof (induction a rule: removeBackslashN.induct)
  case (1 c d cs)
  then show ?case by (auto simp: sublist_Cons_right)
qed (auto simp: sublist_Cons_right)

text \<open>Trimming removes the white space around a core that neither starts nor ends with any.\<close>

lemma trim_core:
  assumes "\<forall>c\<in>set a. isWhiteSpace c" and "\<forall>c\<in>set b. isWhiteSpace c"
    and "m = [] \<or> (\<not> isWhiteSpace (hd m) \<and> \<not> isWhiteSpace (last m))"
  shows "trim (a @ m @ b) = m"
proof (cases "m = []")
  case True
  have d: "dropWhile isWhiteSpace (a @ b) = []"
    using assms(1,2) by auto
  show ?thesis by (simp add: trim_def True d)
next
  case False
  then have h: "\<not> isWhiteSpace (hd m)" and l: "\<not> isWhiteSpace (last m)" using assms(3) by auto
  have "dropWhile isWhiteSpace (a @ m @ b) = m @ b"
    using assms(1) False h by (cases m) (auto simp: dropWhile_append)
  moreover have "dropWhile isWhiteSpace (rev b @ rev m) = rev m"
    using assms(2) False l by (cases "rev m") (auto simp: dropWhile_append last_rev [symmetric])
  ultimately show ?thesis by (simp add: trim_def)
qed

text \<open>A text put together from lines with their line ends splits back into those lines.\<close>

lemma splitLines_assembled:
  assumes "\<forall>(l, t)\<in>set ended. LF \<notin> set l \<and> (t = [LF] \<and> (l = [] \<or> last l \<noteq> CR) \<or> t = [CR, LF])"
    and "LF \<notin> set final"
  shows "splitLines (concat (map (\<lambda>(l, t). l @ t) ended) @ final) = map fst ended @ [final]"
  using assms(1)
proof (induction ended)
  case Nil
  then show ?case using assms(2) by (simp add: splitLines_single)
next
  case (Cons x ended)
  obtain l t where x: "x = (l, t)" by (cases x)
  have ih: "splitLines (concat (map (\<lambda>(l, t). l @ t) ended) @ final) = map fst ended @ [final]"
    using Cons by simp
  have h: "LF \<notin> set l" "t = [LF] \<and> (l = [] \<or> last l \<noteq> CR) \<or> t = [CR, LF]"
    using Cons.prems x by auto
  from h(2) show ?case
  proof
    assume "t = [LF] \<and> (l = [] \<or> last l \<noteq> CR)"
    then show ?thesis using x ih splitLines_LF [OF h(1), of "concat (map (\<lambda>(l, t). l @ t) ended) @ final"]
      by simp
  next
    assume "t = [CR, LF]"
    then show ?thesis using x ih splitLines_CRLF [OF h(1), of "concat (map (\<lambda>(l, t). l @ t) ended) @ final"]
      by simp
  qed
qed

text \<open>Pieces free of backslash-n, put together with backslash-n between them, lose every one.\<close>

lemma removeBackslashN_pieces:
  assumes "pieces \<noteq> []" and "\<forall>p\<in>set pieces. \<not> sublist [BACKSLASH, CHR ''n''] p"
  shows "removeBackslashN (concat (map (\<lambda>p. p @ [BACKSLASH, CHR ''n'']) (butlast pieces)) @ last pieces)
           = concat pieces"
  using assms
proof (induction pieces rule: induct_list012)
  case 1
  then show ?case by simp
next
  case (2 p)
  then show ?case by (simp add: removeBackslashN_none)
next
  case (3 p q qs)
  have "removeBackslashN (concat (map (\<lambda>p. p @ [BACKSLASH, CHR ''n'']) (butlast (q # qs))) @ last (q # qs))
          = concat (q # qs)"
    using 3 by simp
  then show ?case
    using 3(4) removeBackslashN_first [of p "concat (map (\<lambda>p. p @ [BACKSLASH, CHR ''n'']) (butlast (q # qs))) @ last (q # qs)"]
    by simp
qed

section \<open>Facts about paths\<close>

lemma splitSep_plain: "CHR ''/'' \<notin> set f \<Longrightarrow> splitSep f = [f]"
  by (induction f) auto

lemma basename_plain: "CHR ''/'' \<notin> set f \<Longrightarrow> basename f = f"
  by (simp add: basename_def splitSep_plain)

text \<open>The extension of a plain file name is a suffix of the name.\<close>

lemma extname_suffix:
  assumes "CHR ''/'' \<notin> set f" and "extname f \<noteq> []"
  shows "\<exists>stem. f = stem @ extname f"
proof -
  let ?P = "\<lambda>c. c \<noteq> CHR ''.''"
  let ?u = "dropWhile ?P (rev f)"
  have b: "basename f = f" using assms(1) by (rule basename_plain)
  have u: "?u \<noteq> []" using assms(2) b by (auto simp: extname_def Let_def split: if_splits)
  then have h: "hd ?u = CHR ''.''" using hd_dropWhile [of ?P "rev f"] by simp
  have e: "extname f = CHR ''.'' # rev (takeWhile ?P (rev f))"
    using assms(2) b by (auto simp: extname_def Let_def split: if_splits)
  have "rev f = takeWhile ?P (rev f) @ ?u" by simp
  also have "?u = CHR ''.'' # tl ?u" using u h by (cases ?u) auto
  finally have "rev (rev f) = rev (takeWhile ?P (rev f) @ CHR ''.'' # tl ?u)" by simp
  then have "f = rev (tl ?u) @ extname f" using e by simp
  then show ?thesis by blast
qed

section \<open>Title extraction\<close>

text \<open>
  Claim C3. Whenever the file can be read and its first line is empty, or its line at
  index 6 exists and contains \<open>collapsed\<close>, \<open>findTitle\<close> returns the string \<open>Untitled\<close>,
  whatever the file's name and the rest of its text.
\<close>

theorem findTitle_untitled:
  assumes "readFileSync fs filePath = Inr data"
    and "splitLines data ! 0 = [] \<or>
         (7 \<le> length (splitLines data) \<and> sublist ''collapsed'' (splitLines data ! 6))"
  shows "findTitle fs file filePath = Inr (Some ''Untitled'')"
  using assms splitLines_nonempty [of data]
  by (auto simp: findTitle_def Let_def elementAt_0 elementAt_def indexOf_sublist)

theorem findTitle_untitled_witness:
  "findTitle (Map.empty([''nb.ipynb''] \<mapsto> FileE notebookText)) ''nb.ipynb'' ''nb.ipynb''
     = Inr (Some ''Untitled'')"
proof -
  have r: "readFileSync (Map.empty([''nb.ipynb''] \<mapsto> FileE notebookText)) ''nb.ipynb'' = Inr notebookText"
    by (simp add: readFileSync_def lookupPath_def resolve_def)
  have l: "7 \<le> length (splitLines notebookText)"
    by (simp add: notebookText_def)
  have "splitLines notebookText ! 6 = (''    '' @ [DQUOTE]) @ ''collapsed'' @ ([DQUOTE] @ '': true'')"
    by (simp add: notebookText_def)
  then have s: "sublist ''collapsed'' (splitLines notebookText ! 6)"
    unfolding sublist_def by blast
  show ?thesis
    using findTitle_untitled [OF r, of "''nb.ipynb''"] l s by blast
qed

text \<open>
  Claim C4 does not hold as stated: \<open>draft.ipynb\<close> can be read, its first line is not
  empty and it has fewer than 7 lines, so it meets neither \<open>Untitled\<close> condition; it is an
  \<open>.ipynb\<close> file, and \<open>findTitle\<close> returns no title for it but throws.
\<close>

theorem findTitle_extracts_counterexample:
  "readFileSync draftFs ''draft.ipynb'' = Inr draftNotebook
   \<and> splitLines draftNotebook ! 0 \<noteq> []
   \<and> \<not> (7 \<le> length (splitLines draftNotebook)
          \<and> sublist ''collapsed'' (splitLines draftNotebook ! 6))
   \<and> extname ''draft.ipynb'' = ''.ipynb''
   \<and> findTitle draftFs ''draft.ipynb'' ''draft.ipynb'' = Inl (undefinedReading ''replace'')"
proof -
  have r: "readFileSync draftFs ''draft.ipynb'' = Inr draftNotebook"
    by (simp add: readFileSync_def lookupPath_def resolve_def draftFs_def)
  have s: "splitLines draftNotebook = [''{'', '' cells: []'', ''}'']"
    by (simp add: draftNotebook_def)
  have e: "extname ''draft.ipynb'' = ''.ipynb''"
    by (simp add: extname_def basename_def)
  have "findTitle draftFs ''draft.ipynb'' ''draft.ipynb'' = Inl (undefinedReading ''replace'')"
    by (simp add: findTitle_def r s e elementAt_def)
  then show ?thesis using r s e by simp
qed

text \<open>
  Claim C4, amended. For a readable file that meets neither \<open>Untitled\<close> condition,
  \<open>findTitle\<close> takes line 6 of an \<open>.ipynb\<close> file that has at least 7 lines and line 0 of an
  \<open>.md\<close> file, drops every colon, hash, double quote, single quote and comma, drops each
  backslash-n pair, and trims; an \<open>.md\<close> file starting with \<open># Hello World\<close> gets the
  title \<open>Hello World\<close>. The steps are stated on the text itself. The lines: when the text
  is a sequence of lines, each without line feed and ended by a line feed (not preceded by
  a carriage return) or by carriage return and line feed, then a last line, these are the
  lines. The title: when the line without the five characters consists of pieces free of
  backslash-n with backslash-n between them, and the pieces together are a core between
  white space, with no white space at either end of the core, the title is the core.
\<close>

theorem findTitle_extracts:
  assumes "readFileSync fs filePath = Inr data"
    and "splitLines data ! 0 \<noteq> []"
    and "\<not> (7 \<le> length (splitLines data) \<and> sublist ''collapsed'' (splitLines data ! 6))"
  shows "(\<forall>ended final.
            data = concat (map (\<lambda>(l, t). l @ t) ended) @ final
            \<and> (\<forall>(l, t)\<in>set ended.
                  LF \<notin> set l \<and> (t = [LF] \<and> (l = [] \<or> last l \<noteq> CR) \<or> t = [CR, LF]))
            \<and> LF \<notin> set final \<longrightarrow>
            splitLines data = map fst ended @ [final])
       \<and> (\<forall>k pieces pre core post.
            (extname file = ''.ipynb'' \<and> 7 \<le> length (splitLines data) \<and> k = 6
               \<or> extname file = ''.md'' \<and> k = 0)
            \<and> pieces \<noteq> [] \<and> (\<forall>p\<in>set pieces. \<not> sublist [BACKSLASH, CHR ''n''] p)
            \<and> filter (\<lambda>c. c \<notin> {CHR '':'', CHR ''#'', DQUOTE, SQUOTE, CHR '',''}) (splitLines data ! k)
                = concat (map (\<lambda>p. p @ [BACKSLASH, CHR ''n'']) (butlast pieces)) @ last pieces
            \<and> concat pieces = pre @ core @ post
            \<and> set pre \<subseteq> {CHR 0x09, LF, CHR 0x0B, CHR 0x0C, CR, CHR 0x20, CHR 0xA0}
            \<and> set post \<subseteq> {CHR 0x09, LF, CHR 0x0B, CHR 0x0C, CR, CHR 0x20, CHR 0xA0}
            \<and> (core = [] \<or> hd core \<notin> {CHR 0x09, LF, CHR 0x0B, CHR 0x0C, CR, CHR 0x20, CHR 0xA0}
                            \<and> last core \<notin> {CHR 0x09, LF, CHR 0x0B, CHR 0x0C, CR, CHR 0x20, CHR 0xA0})
            \<longrightarrow> findTitle fs file filePath = Inr (Some core))
       \<and> (extname file = ''.ipynb'' \<and> 7 \<le> length (splitLines data) \<longrightarrow>
            findTitle fs file filePath =
              Inr (Some (trim (removeBackslashN
                (filter (\<lambda>c. c \<notin> {CHR '':'', CHR ''#'', DQUOTE, SQUOTE, CHR '',''}) (splitLines data ! 6))))))
       \<and> (extname file = ''.md'' \<longrightarrow>
            findTitle fs file filePath =
              Inr (Some (trim (removeBackslashN
                (filter (\<lambda>c. c \<notin> {CHR '':'', CHR ''#'', DQUOTE, SQUOTE, CHR '',''}) (splitLines data ! 0))))))
       \<and> (extname file = ''.md'' \<and> splitLines data ! 0 = ''# Hello World'' \<longrightarrow>
            findTitle fs file filePath = Inr (Some ''Hello World''))"
proof -
  let ?S = "{CHR '':'', CHR ''#'', DQUOTE, SQUOTE, CHR '',''}"
  let ?W = "{CHR 0x09, LF, CHR 0x0B, CHR 0x0C, CR, CHR 0x20, CHR 0xA0}"
  have c: "cleanTitle l = trim (removeBackslashN (filter (\<lambda>c. c \<notin> ?S) l))" for l
    by (simp add: cleanTitle_def stripChars_def strippedChars_def)
  have h: "cleanTitle ''# Hello World'' = ''Hello World''"
    by (simp add: cleanTitle_def stripChars_def strippedChars_def trim_def isWhiteSpace_def)
  have u: "\<not> (7 \<le> length (splitLines data)
              \<and> (case elementAt (splitLines data) 6 of Some l \<Rightarrow> -1 < indexOf l ''collapsed'' | None \<Rightarrow> False))"
    using assms(3) by (auto simp: elementAt_def indexOf_sublist)
  have m: "extname file = ''.md'' \<Longrightarrow> findTitle fs file filePath = Inr (Some (cleanTitle (splitLines data ! 0)))"
    using assms(1,2) u by (auto simp: findTitle_def Let_def elementAt_0)
  have n: "extname file = ''.ipynb'' \<Longrightarrow> 7 \<le> length (splitLines data) \<Longrightarrow>
      findTitle fs file filePath = Inr (Some (cleanTitle (splitLines data ! 6)))"
    using assms(1,2) u by (auto simp: findTitle_def Let_def elementAt_0 elementAt_def)
  have a: "splitLines data = map fst ended @ [final]"
    if "data = concat (map (\<lambda>(l, t). l @ t) ended) @ final"
      "\<forall>(l, t)\<in>set ended. LF \<notin> set l \<and> (t = [LF] \<and> (l = [] \<or> last l \<noteq> CR) \<or> t = [CR, LF])"
      "LF \<notin> set final" for ended final
    unfolding that(1) using that(2,3) by (rule splitLines_assembled)
  have w: "isWhiteSpace x \<longleftrightarrow> x \<in> ?W" for x
    by (simp add: isWhiteSpace_def)
  have t: "cleanTitle l = core"
    if p: "pieces \<noteq> []" "\<forall>p\<in>set pieces. \<not> sublist [BACKSLASH, CHR ''n''] p"
      "filter (\<lambda>c. c \<notin> ?S) l = concat (map (\<lambda>p. p @ [BACKSLASH, CHR ''n'']) (butlast pieces)) @ last pieces"
      "concat pieces = pre @ core @ post" "set pre \<subseteq> ?W" "set post \<subseteq> ?W"
      "core = [] \<or> hd core \<notin> ?W \<and> last core \<notin> ?W"
    for l pieces pre core post
  proof -
    have "removeBackslashN (filter (\<lambda>c. c \<notin> ?S) l) = pre @ core @ post"
      unfolding p(3) using removeBackslashN_pieces [OF p(1,2)] p(4) by simp
    moreover have "trim (pre @ core @ post) = core"
      by (rule trim_core) (use p(5,6,7) in \<open>auto simp: w\<close>)
    ultimately show ?thesis by (simp add: c)
  qed
  have b: "findTitle fs file filePath = Inr (Some core)"
    if "extname file = ''.ipynb'' \<and> 7 \<le> length (splitLines data) \<and> k = 6
          \<or> extname file = ''.md'' \<and> k = 0"
      "pieces \<noteq> []" "\<forall>p\<in>set pieces. \<not> sublist [BACKSLASH, CHR ''n''] p"
      "filter (\<lambda>c. c \<notin> ?S) (splitLines data ! k)
         = concat (map (\<lambda>p. p @ [BACKSLASH, CHR ''n'']) (butlast pieces)) @ last pieces"
      "concat pieces = pre @ core @ post" "set pre \<subseteq> ?W" "set post \<subseteq> ?W"
      "core = [] \<or> hd core \<notin> ?W \<and> last core \<notin> ?W"
    for k pieces pre core post
    using that(1) t [OF that(2-8)] m n by auto
  have 3: "extname file = ''.ipynb'' \<and> 7 \<le> length (splitLines data) \<longrightarrow>
            findTitle fs file filePath =
              Inr (Some (trim (removeBackslashN (filter (\<lambda>c. c \<notin> ?S) (splitLines data ! 6)))))"
    using n by (simp add: c)
  have 4: "extname file = ''.md'' \<longrightarrow>
            findTitle fs file filePath =
              Inr (Some (trim (removeBackslashN (filter (\<lambda>c. c \<notin> ?S) (splitLines data ! 0)))))"
    using m by (simp add: c)
  have 5: "extname file = ''.md'' \<and> splitLines data ! 0 = ''# Hello World'' \<longrightarrow>
            findTitle fs file filePath = Inr (Some ''Hello World'')"
    using m h by simp
  show ?thesis
    using a b 3 4 5 by blast
qed

theorem findTitle_extracts_witness:
  "findTitle titledFs ''sales.ipynb'' ''sales.ipynb'' = Inr (Some ''Sales Q1'')
   \<and> length (splitLines titledNotebook) = 8
   \<and> findTitle (Map.empty([''hello.md''] \<mapsto> FileE (''# Hello World'' @ [CR, LF] @ ''text'' @ [LF])))
       ''hello.md'' ''hello.md'' = Inr (Some ''Hello World'')"
proof -
  let ?ended = "[(''{'', [CR, LF]),
      ('' '' @ [DQUOTE] @ ''cells'' @ [DQUOTE] @ '': ['', [CR, LF]),
      (''  {'', [LF]),
      (''   '' @ [DQUOTE] @ ''cell_type'' @ [DQUOTE] @ '': '' @ [DQUOTE] @ ''markdown'' @ [DQUOTE] @ '','', [LF]),
      (''   '' @ [DQUOTE] @ ''metadata'' @ [DQUOTE] @ '': {},'', [CR, LF]),
      (''   '' @ [DQUOTE] @ ''source'' @ [DQUOTE] @ '': ['', [LF]),
      (''    '' @ [DQUOTE] @ ''# Sales: '' @ [BACKSLASH] @ ''nQ1'' @ [BACKSLASH] @ ''n'' @ [DQUOTE] @ '','', [CR, LF])]"
  let ?pieces = "[''     Sales '', ''Q1'', []]"
  have r: "readFileSync titledFs ''sales.ipynb'' = Inr titledNotebook"
    by (simp add: readFileSync_def lookupPath_def resolve_def titledFs_def)
  have s: "splitLines titledNotebook = map fst ?ended @ [''   ]'']"
    by (simp add: titledNotebook_def)
  have n0: "splitLines titledNotebook ! 0 \<noteq> []"
    by (simp add: s)
  have "\<not> sublist ''collapsed'' (splitLines titledNotebook ! 6)"
    unfolding indexOf_sublist [symmetric] by (simp add: s)
  then have n1: "\<not> (7 \<le> length (splitLines titledNotebook)
                   \<and> sublist ''collapsed'' (splitLines titledNotebook ! 6))"
    by simp
  note t = findTitle_extracts [OF r n0 n1, of "''sales.ipynb''"]
  have e: "extname ''sales.ipynb'' = ''.ipynb''"
    by (simp add: extname_def basename_def)
  have d: "titledNotebook = concat (map (\<lambda>(l, t). l @ t) ?ended) @ ''   ]''"
    by (simp add: titledNotebook_def)
  have l: "splitLines titledNotebook = map fst ?ended @ [''   ]'']"
    using t [THEN conjunct1, rule_format, of ?ended "''   ]''"] d by simp
  have p: "\<forall>p\<in>set ?pieces. \<not> sublist [BACKSLASH, CHR ''n''] p"
    unfolding indexOf_sublist [symmetric] by simp
  have f: "filter (\<lambda>c. c \<notin> {CHR '':'', CHR ''#'', DQUOTE, SQUOTE, CHR '',''}) (splitLines titledNotebook ! 6)
      = concat (map (\<lambda>p. p @ [BACKSLASH, CHR ''n'']) (butlast ?pieces)) @ last ?pieces"
    by (simp add: l)
  have 1: "findTitle titledFs ''sales.ipynb'' ''sales.ipynb'' = Inr (Some ''Sales Q1'')"
    using t [THEN conjunct2, THEN conjunct1, rule_format, of 6 ?pieces "''     ''" "''Sales Q1''" "[]"]
      e p f l
    by simp
  let ?data = "''# Hello World'' @ [CR, LF] @ ''text'' @ [LF]"
  have r2: "readFileSync (Map.empty([''hello.md''] \<mapsto> FileE ?data)) ''hello.md'' = Inr ?data"
    by (simp add: readFileSync_def lookupPath_def resolve_def)
  have e2: "extname ''hello.md'' = ''.md''"
    by (simp add: extname_def basename_def)
  have m0: "splitLines ?data ! 0 \<noteq> []"
    by simp
  have m1: "\<not> (7 \<le> length (splitLines ?data) \<and> sublist ''collapsed'' (splitLines ?data ! 6))"
    by simp
  have m2: "splitLines ?data ! 0 = ''# Hello World''"
    by simp
  have 2: "findTitle (Map.empty([''hello.md''] \<mapsto> FileE ?data)) ''hello.md'' ''hello.md''
             = Inr (Some ''Hello World'')"
    using findTitle_extracts [OF r2 m0 m1, of "''hello.md''"] e2 m2 by blast
  show ?thesis using 1 2 l by simp
qed

text \<open>
  Claim C10. On a readable \<open>.ipynb\<close> file whose first line is not empty and which has
  fewer than 7 lines, the lookup of line 6 finds nothing and \<open>findTitle\<close> throws; a
  readable \<open>.ipynb\<close> file gets a result exactly when its first line is empty or it has at
  least 7 lines.
\<close>

theorem findTitle_notebook_needs_seven_lines:
  assumes "readFileSync fs filePath = Inr data"
    and "extname file = ''.ipynb''"
  shows "(splitLines data ! 0 \<noteq> [] \<and> length (splitLines data) < 7 \<longrightarrow>
            elementAt (splitLines data) 6 = None
            \<and> findTitle fs file filePath = Inl (undefinedReading ''replace''))
       \<and> ((\<exists>t. findTitle fs file filePath = Inr t) \<longleftrightarrow>
            (splitLines data ! 0 = [] \<or> 7 \<le> length (splitLines data)))"
  using assms splitLines_nonempty [of data]
  by (auto simp: findTitle_def Let_def elementAt_0 elementAt_def split: option.splits)

theorem findTitle_notebook_needs_seven_lines_witness:
  "findTitle (Map.empty([''short.ipynb''] \<mapsto> FileE (''{'' @ [LF] @ ''}''))) ''short.ipynb'' ''short.ipynb''
     = Inl (undefinedReading ''replace'')"
proof -
  let ?data = "''{'' @ [LF] @ ''}''"
  have r: "readFileSync (Map.empty([''short.ipynb''] \<mapsto> FileE ?data)) ''short.ipynb'' = Inr ?data"
    by (simp add: readFileSync_def lookupPath_def resolve_def)
  have s: "splitLines ?data = [''{'', ''}'']"
    by simp
  have e: "extname ''short.ipynb'' = ''.ipynb''"
    by (simp add: extname_def basename_def)
  show ?thesis
    using findTitle_notebook_needs_seven_lines [OF r e] s by simp
qed

text \<open>
  Claim C6. \<open>getSlicedFilename\<close> drops a fixed number of characters: the last 6 when the
  extension is \<open>.ipynb\<close>, the last 3 when it is \<open>.md\<close> (which removes exactly the extension
  of a plain file name), and the last 3 for any other extension too, so \<open>notes.json\<close>
  becomes \<open>notes.j\<close>.
\<close>

theorem getSlicedFilename_fixed_strip:
  "(extname f = ''.ipynb'' \<longrightarrow> getSlicedFilename f = take (length f - 6) f)
   \<and> (extname f = ''.md'' \<longrightarrow> getSlicedFilename f = take (length f - 3) f)
   \<and> (CHR ''/'' \<notin> set f \<and> extname f = ''.ipynb'' \<longrightarrow> getSlicedFilename f @ ''.ipynb'' = f)
   \<and> (CHR ''/'' \<notin> set f \<and> extname f = ''.md'' \<longrightarrow> getSlicedFilename f @ ''.md'' = f)
   \<and> (extname f \<noteq> ''.ipynb'' \<longrightarrow> getSlicedFilename f = take (length f - 3) f)
   \<and> getSlicedFilename ''notes.json'' = ''notes.j''"
proof -
  have a: "getSlicedFilename f @ ''.ipynb'' = f" if h: "CHR ''/'' \<notin> set f" "extname f = ''.ipynb''"
  proof -
    have "extname f \<noteq> []" using h by simp
    then obtain stem where "f = stem @ extname f" using extname_suffix [of f] h by blast
    then have "f = stem @ ''.ipynb''" using h by simp
    then show ?thesis using h by (simp add: getSlicedFilename_def sliceEnd_def)
  qed
  have b: "getSlicedFilename f @ ''.md'' = f" if h: "CHR ''/'' \<notin> set f" "extname f = ''.md''"
  proof -
    have "extname f \<noteq> []" using h by simp
    then obtain stem where "f = stem @ extname f" using extname_suffix [of f] h by blast
    then have "f = stem @ ''.md''" using h by simp
    then show ?thesis using h by (simp add: getSlicedFilename_def sliceEnd_def)
  qed
  have c: "getSlicedFilename ''notes.json'' = ''notes.j''"
    by (simp add: getSlicedFilename_def sliceEnd_def extname_def basename_def)
  show ?thesis using a b c by (simp add: getSlicedFilename_def sliceEnd_def)
qed

theorem getSlicedFilename_fixed_strip_witness:
  "getSlicedFilename ''Chapter1.ipynb'' = ''Chapter1'' \<and> getSlicedFilename ''intro.md'' = ''intro''"
proof -
  have e1: "extname ''Chapter1.ipynb'' = ''.ipynb''" by (simp add: extname_def basename_def)
  have e2: "extname ''intro.md'' = ''.md''" by (simp add: extname_def basename_def)
  show ?thesis
    using getSlicedFilename_fixed_strip [of "''Chapter1.ipynb''"]
      getSlicedFilename_fixed_strip [of "''intro.md''"] e1 e2 by simp
qed

section \<open>Lower case\<close>


lemma toLowerChar_ascii:
  assumes "of_char d \<in> {97..122::nat}"
  shows "toLowerChar c = d \<longleftrightarrow> c = d \<or> of_char c + 32 = (of_char d :: nat)"
proof -
  have c: "(of_char c :: nat) < 256" by simp
  have e: "x = d \<longleftrightarrow> (of_char x :: nat) = of_char d" for x by simp
  have k: "(of_char (char_of (n::nat)) :: nat) = n" if "n < 256" for n
    using that by simp
  show ?thesis
  proof (cases "(65 \<le> (of_char c :: nat) \<and> (of_char c :: nat) \<le> 90)
        \<or> (192 \<le> (of_char c :: nat) \<and> (of_char c :: nat) \<le> 214)
        \<or> (216 \<le> (of_char c :: nat) \<and> (of_char c :: nat) \<le> 222)")
    case True
    then have "toLowerChar c = char_of (of_char c + 32 :: nat)" by (simp add: toLowerChar_def Let_def)
    moreover have "(of_char c + 32 :: nat) < 256" using True by auto
    ultimately have "(of_char (toLowerChar c) :: nat) = of_char c + 32" using k by simp
    then show ?thesis using True assms unfolding e [of "toLowerChar c"] e [of c] by auto
  next
    case False
    then have "toLowerChar c = c" by (auto simp: toLowerChar_def Let_def)
    then show ?thesis using False assms unfolding e [of c] by auto
  qed
qed

lemma toLowerChar_dot: "toLowerChar c = CHR ''.'' \<longleftrightarrow> c = CHR ''.''"
proof -
  have e: "x = CHR ''.'' \<longleftrightarrow> (of_char x :: nat) = 46" for x
    using of_char_eq_iff [of x "CHR ''.''", where ?'a = nat] by simp
  have k: "(of_char (char_of (n::nat)) :: nat) = n" if "n < 256" for n
    using that by simp
  show ?thesis
  proof (cases "(65 \<le> (of_char c :: nat) \<and> (of_char c :: nat) \<le> 90)
        \<or> (192 \<le> (of_char c :: nat) \<and> (of_char c :: nat) \<le> 214)
        \<or> (216 \<le> (of_char c :: nat) \<and> (of_char c :: nat) \<le> 222)")
    case True
    then have "toLowerChar c = char_of (of_char c + 32 :: nat)" by (simp add: toLowerChar_def Let_def)
    moreover have "(of_char c + 32 :: nat) < 256" using True by auto
    ultimately have "(of_char (toLowerChar c) :: nat) = of_char c + 32" using k by simp
    then show ?thesis using True unfolding e [of "toLowerChar c"] e [of c] by auto
  next
    case False
    then have "toLowerChar c = c" by (auto simp: toLowerChar_def Let_def)
    then show ?thesis by simp
  qed
qed

lemma toLowerChar_letters:
  "toLowerChar c = CHR ''m'' \<longleftrightarrow> c \<in> {CHR ''m'', CHR ''M''}"
  "toLowerChar c = CHR ''d'' \<longleftrightarrow> c \<in> {CHR ''d'', CHR ''D''}"
  "toLowerChar c = CHR ''i'' \<longleftrightarrow> c \<in> {CHR ''i'', CHR ''I''}"
  "toLowerChar c = CHR ''p'' \<longleftrightarrow> c \<in> {CHR ''p'', CHR ''P''}"
  "toLowerChar c = CHR ''y'' \<longleftrightarrow> c \<in> {CHR ''y'', CHR ''Y''}"
  "toLowerChar c = CHR ''n'' \<longleftrightarrow> c \<in> {CHR ''n'', CHR ''N''}"
  "toLowerChar c = CHR ''b'' \<longleftrightarrow> c \<in> {CHR ''b'', CHR ''B''}"
  using toLowerChar_ascii [of "CHR ''m''" c] of_char_eq_iff [of c "CHR ''M''", where ?'a = nat]
    toLowerChar_ascii [of "CHR ''d''" c] of_char_eq_iff [of c "CHR ''D''", where ?'a = nat]
    toLowerChar_ascii [of "CHR ''i''" c] of_char_eq_iff [of c "CHR ''I''", where ?'a = nat]
    toLowerChar_ascii [of "CHR ''p''" c] of_char_eq_iff [of c "CHR ''P''", where ?'a = nat]
    toLowerChar_ascii [of "CHR ''y''" c] of_char_eq_iff [of c "CHR ''Y''", where ?'a = nat]
    toLowerChar_ascii [of "CHR ''n''" c] of_char_eq_iff [of c "CHR ''N''", where ?'a = nat]
    toLowerChar_ascii [of "CHR ''b''" c] of_char_eq_iff [of c "CHR ''B''", where ?'a = nat]
  by auto

text \<open>
  The comparison without regard to case, spelled out: the extension is a dot followed by
  the letters of \<open>ipynb\<close> or of \<open>md\<close>, each in either case.
\<close>

lemma isNotebookFile_cases:
  "isNotebookFile f \<longleftrightarrow>
     (\<exists>i p y n b. extname f = [CHR ''.'', i, p, y, n, b]
        \<and> i \<in> {CHR ''i'', CHR ''I''} \<and> p \<in> {CHR ''p'', CHR ''P''} \<and> y \<in> {CHR ''y'', CHR ''Y''}
        \<and> n \<in> {CHR ''n'', CHR ''N''} \<and> b \<in> {CHR ''b'', CHR ''B''})
     \<or> (\<exists>m d. extname f = [CHR ''.'', m, d]
        \<and> m \<in> {CHR ''m'', CHR ''M''} \<and> d \<in> {CHR ''d'', CHR ''D''})"
proof -
  have 1: "toLowerCase e = ''.ipynb'' \<longleftrightarrow>
     (\<exists>i p y n b. e = [CHR ''.'', i, p, y, n, b]
        \<and> i \<in> {CHR ''i'', CHR ''I''} \<and> p \<in> {CHR ''p'', CHR ''P''} \<and> y \<in> {CHR ''y'', CHR ''Y''}
        \<and> n \<in> {CHR ''n'', CHR ''N''} \<and> b \<in> {CHR ''b'', CHR ''B''})" for e
    unfolding toLowerCase_def map_eq_Cons_conv toLowerChar_dot toLowerChar_letters by auto
  have 2: "toLowerCase e = ''.md'' \<longleftrightarrow>
     (\<exists>m d. e = [CHR ''.'', m, d] \<and> m \<in> {CHR ''m'', CHR ''M''} \<and> d \<in> {CHR ''d'', CHR ''D''})" for e
    unfolding toLowerCase_def map_eq_Cons_conv toLowerChar_dot toLowerChar_letters by auto
  show ?thesis
    unfolding isNotebookFile_def using 1 [of "extname f"] 2 [of "extname f"] by auto
qed

section \<open>Listing and scanning a folder\<close>

lemma getFolderContent_dir:
  "lookupPath fs p = Some (DirE names) \<Longrightarrow> getFolderContent fs p errors = Inr (names, errors)"
  by (simp add: getFolderContent_def statSync_def readdirSync_def)

lemma getFolderContent_file:
  "lookupPath fs p = Some (FileE d) \<Longrightarrow> getFolderContent fs p errors = Inr ([], errors)"
  by (simp add: getFolderContent_def statSync_def)

lemma getFolderContent_missing:
  "lookupPath fs p = None \<Longrightarrow>
     getFolderContent fs p (Some es) =
       Inr ([], Some (es @ [''Unable to access '' @ p @ '': '' @ message (enoent ''stat'' p)]))"
  by (simp add: getFolderContent_def statSync_def push_def)


lemma getFolderContent_Some:
  "getFolderContent fs p (Some es) = Inr (folderListing fs p, Some (es @ accessErrors fs p))"
proof (cases "lookupPath fs p")
  case None
  then show ?thesis by (simp add: getFolderContent_missing folderListing_def accessErrors_def)
next
  case (Some x)
  then show ?thesis
    by (cases x) (simp_all add: getFolderContent_dir getFolderContent_file folderListing_def accessErrors_def)
qed

text \<open>The loop over the listing, when both sequences of the registry exist.\<close>

lemma foldl_countNotebookFile:
  assumes "notebookNames st = Some ns" and "notebookPaths st = Some ps"
  shows "foldl (countNotebookFile folder) (n, st) files =
           (n + length (filter isNotebookFile files),
            st\<lparr>notebookNames := Some (ns @ filter isNotebookFile files),
               notebookPaths := Some (ps @ map (\<lambda>f. join [folder, f]) (filter isNotebookFile files))\<rparr>)"
  using assms
proof (induction files arbitrary: n st ns ps)
  case Nil
  then show ?case by simp
next
  case (Cons f files)
  show ?case
  proof (cases "isNotebookFile f")
    case True
    let ?st = "st\<lparr>notebookNames := Some (ns @ [f]), notebookPaths := Some (ps @ [join [folder, f]])\<rparr>"
    have step: "countNotebookFile folder (n, st) f = (n + 1, ?st)"
      using True Cons.prems
      by (simp add: countNotebookFile_def isNotebookFile_def Let_def push_def)
    have "foldl (countNotebookFile folder) (n + 1, ?st) files =
            (n + 1 + length (filter isNotebookFile files),
             ?st\<lparr>notebookNames := Some ((ns @ [f]) @ filter isNotebookFile files),
                 notebookPaths := Some ((ps @ [join [folder, f]])
                    @ map (\<lambda>f. join [folder, f]) (filter isNotebookFile files))\<rparr>)"
      by (rule Cons.IH) simp_all
    then show ?thesis using True step by simp
  next
    case False
    have step: "countNotebookFile folder (n, st) f = (n, st)"
      using False by (simp add: countNotebookFile_def isNotebookFile_def Let_def)
    show ?thesis using False step Cons.IH [OF Cons.prems] by simp
  qed
qed

lemma findNotebookFiles_Some:
  assumes "notebookNames st = Some ns" and "notebookPaths st = Some ps"
  shows "findNotebookFiles fs p (Some es) st =
           Inr (length (notebooksIn fs p), Some (es @ accessErrors fs p),
                st\<lparr>notebookNames := Some (ns @ notebooksIn fs p),
                   notebookPaths := Some (ps @ map (\<lambda>f. join [p, f]) (notebooksIn fs p))\<rparr>)"
  by (simp add: findNotebookFiles_def getFolderContent_Some Let_def
      foldl_countNotebookFile [OF assms] notebooksIn_def)

lemma lookup_bookFs_ch1:
  "lookupPath bookFs ''book/ch1'' = Some (DirE [''a.ipynb'', ''B.MD'', ''c.txt'', ''d.Ipynb''])"
  by (simp add: lookupPath_def resolve_def bookFs_def)

lemma isNotebookFile_samples:
  "isNotebookFile ''a.ipynb''" "isNotebookFile ''B.MD''" "\<not> isNotebookFile ''c.txt''"
  "isNotebookFile ''d.Ipynb''"
  by (simp_all add: isNotebookFile_def extname_def basename_def) code_simp+

text \<open>
  Claim C1. When the folder is a directory whose listing holds \<open>N\<close> notebook files and \<open>M\<close>
  others, and both sequences of the registry exist, \<open>findNotebookFiles\<close> returns \<open>N\<close>,
  leaves the collector alone, and appends the \<open>N\<close> names in listing order to
  \<open>notebookNames\<close> and, index by index, the folder path joined with each name to
  \<open>notebookPaths\<close>.
\<close>

theorem findNotebookFiles_counts_matches:
  assumes "lookupPath fs folderPath = Some (DirE files)"
    and "notebookNames st = Some names" and "notebookPaths st = Some paths"
    and "length (filter isNotebookFile files) = N"
    and "length (filter (\<lambda>f. \<not> isNotebookFile f) files) = M"
  shows "findNotebookFiles fs folderPath (Some errors) st =
           Inr (N, Some errors,
                st\<lparr>notebookNames := Some (names @ filter isNotebookFile files),
                   notebookPaths := Some (paths @ map (\<lambda>f. join [folderPath, f]) (filter isNotebookFile files))\<rparr>)
         \<and> length (names @ filter isNotebookFile files) = length names + N
         \<and> length (paths @ map (\<lambda>f. join [folderPath, f]) (filter isNotebookFile files)) = length paths + N
         \<and> length files = N + M"
proof -
  have l: "folderListing fs folderPath = files" using assms(1) by (simp add: folderListing_def)
  have a: "accessErrors fs folderPath = []" using assms(1) by (simp add: accessErrors_def)
  have "length files = length (filter isNotebookFile files) + length (filter (\<lambda>f. \<not> isNotebookFile f) files)"
    by (rule sum_length_filter_compl [symmetric])
  then show ?thesis
    using findNotebookFiles_Some [OF assms(2,3), of fs folderPath errors] l a assms(4,5)
    by (simp add: notebooksIn_def)
qed

theorem findNotebookFiles_counts_matches_witness:
  "findNotebookFiles bookFs ''book/ch1'' (Some []) emptyState =
     Inr (3, Some [],
          emptyState\<lparr>notebookNames := Some [''a.ipynb'', ''B.MD'', ''d.Ipynb''],
                     notebookPaths := Some [''book/ch1/a.ipynb'', ''book/ch1/B.MD'', ''book/ch1/d.Ipynb'']\<rparr>)"
proof -
  let ?files = "[''a.ipynb'', ''B.MD'', ''c.txt'', ''d.Ipynb'']"
  have n: "notebookNames emptyState = Some []" and p: "notebookPaths emptyState = Some []"
    by (simp_all add: emptyState_def)
  have N: "length (filter isNotebookFile ?files) = 3"
    by (simp add: isNotebookFile_samples)
  have M: "length (filter (\<lambda>f. \<not> isNotebookFile f) ?files) = 1"
    by (simp add: isNotebookFile_samples)
  have j: "join [''book/ch1'', ''a.ipynb''] = ''book/ch1/a.ipynb''"
    "join [''book/ch1'', ''B.MD''] = ''book/ch1/B.MD''"
    "join [''book/ch1'', ''d.Ipynb''] = ''book/ch1/d.Ipynb''"
    by (simp_all add: join_def normalize_def)
  show ?thesis
    using findNotebookFiles_counts_matches [OF lookup_bookFs_ch1 n p N M, of "[]"]
    by (simp add: isNotebookFile_samples j)
qed


section \<open>The contract of the folder lister\<close>

text \<open>
  Claim C2 does not hold as stated: \<open>notes.md\<close> exists and is a file, not a directory,
  and \<open>getFolderContent\<close> returns the empty list without adding any error string.
\<close>

theorem getFolderContent_contract_counterexample:
  "lookupPath bookFs ''notes.md'' = Some (FileE ''# Notes'')
   \<and> getFolderContent bookFs ''notes.md'' (Some []) = Inr ([], Some [])"
  by (simp add: getFolderContent_def statSync_def lookupPath_def resolve_def bookFs_def)

text \<open>
  Claim C2, amended. With a collector supplied, \<open>getFolderContent\<close> returns the listing
  of a path that is a directory; it returns the empty list and leaves the collector as it
  is when the path is something else than a directory; when the path cannot be accessed it
  returns the empty list and appends one string, \<open>Unable to access\<close> followed by the path
  and the failure's message; and it never throws. The single-folder scan of a path that
  does not exist returns 0 with exactly that one string in the collector.
\<close>

theorem getFolderContent_contract:
  "(lookupPath fs folderPath = Some (DirE names) \<longrightarrow>
      getFolderContent fs folderPath (Some errors) = Inr (names, Some errors))
   \<and> (lookupPath fs folderPath = Some (FileE d) \<longrightarrow>
      getFolderContent fs folderPath (Some errors) = Inr ([], Some errors))
   \<and> (lookupPath fs folderPath = None \<longrightarrow>
      (\<exists>msg. getFolderContent fs folderPath (Some errors)
                = Inr ([], Some (errors @ [''Unable to access '' @ folderPath @ '': '' @ msg]))
             \<and> findNotebookFiles fs folderPath (Some []) st
                = Inr (0, Some [''Unable to access '' @ folderPath @ '': '' @ msg], st)
             \<and> sublist folderPath (''Unable to access '' @ folderPath @ '': '' @ msg)))
   \<and> (\<exists>r. getFolderContent fs folderPath (Some errors) = Inr r)"
proof -
  have s: "sublist folderPath (''Unable to access '' @ folderPath @ '': '' @ msg)" for msg
    unfolding sublist_def by blast
  have m: "lookupPath fs folderPath = None \<Longrightarrow>
      findNotebookFiles fs folderPath (Some []) st
        = Inr (0, Some [''Unable to access '' @ folderPath @ '': '' @ message (enoent ''stat'' folderPath)], st)"
    by (simp add: findNotebookFiles_def getFolderContent_missing)
  have t: "\<exists>r. getFolderContent fs folderPath (Some errors) = Inr r"
    by (simp add: getFolderContent_Some)
  show ?thesis
    using s m t getFolderContent_dir [of fs folderPath names "Some errors"]
      getFolderContent_file [of fs folderPath d "Some errors"]
      getFolderContent_missing [of fs folderPath errors]
    by blast
qed

theorem getFolderContent_contract_witness:
  "getFolderContent bookFs ''book/ch1'' (Some []) = Inr ([''a.ipynb'', ''B.MD'', ''c.txt'', ''d.Ipynb''], Some [])
   \<and> (\<exists>msg. findNotebookFiles bookFs ''missing'' (Some []) emptyState
               = Inr (0, Some [''Unable to access missing: '' @ msg], emptyState))"
proof -
  have n: "lookupPath bookFs ''missing'' = None"
    by (simp add: lookupPath_def resolve_def bookFs_def)
  show ?thesis
    using getFolderContent_contract [of bookFs "''book/ch1''" "[''a.ipynb'', ''B.MD'', ''c.txt'', ''d.Ipynb'']" "[]"]
      getFolderContent_contract [of bookFs "''missing''" _ _ _ emptyState]
      lookup_bookFs_ch1 n
    by auto
qed


section \<open>The book-wide scan\<close>







section \<open>The registry invariant\<close>

lemma registryAligned_log: "registryAligned (log st line) = registryAligned st"
  by (simp add: registryAligned_def log_def split: option.splits)

lemma registryAligned_folders:
  "registryAligned (st\<lparr>notebookFolders := x\<rparr>) = registryAligned st"
  by (simp add: registryAligned_def split: option.splits)

lemma registryAligned_foldl:
  assumes "registryAligned st"
  shows "registryAligned (snd (foldl (countNotebookFile folder) (n, st) files))"
proof -
  obtain ns ps where h: "notebookNames st = Some ns" "notebookPaths st = Some ps" "length ns = length ps"
    using assms by (auto simp: registryAligned_def split: option.splits)
  show ?thesis
    using h(3) by (simp add: foldl_countNotebookFile [OF h(1,2)] registryAligned_def)
qed

lemma registryAligned_findNotebookFiles:
  assumes "registryAligned st" and "findNotebookFiles fs p errors st = Inr (n, es', st')"
  shows "registryAligned st'"
  using assms registryAligned_foldl [OF assms(1)]
  by (auto simp: findNotebookFiles_def Let_def split: sum.splits prod.splits)

lemma registryAligned_discoverLoop:
  "registryAligned st \<Longrightarrow> registryAligned (snd (snd (discoverLoop fs rt dirs acc errors st)))"
proof (induction dirs arbitrary: acc errors st)
  case Nil
  then show ?case by simp
next
  case (Cons d dirs)
  show ?case
  proof (cases "findNotebookFiles fs (join [rt, d]) errors st")
    case (Inl e)
    then show ?thesis using Cons.prems by (simp add: Let_def)
  next
    case (Inr r)
    obtain n errors1 st1 where r: "r = (n, errors1, st1)" by (cases r) auto
    have a: "registryAligned st1"
      using Cons.prems Inr r by (auto intro: registryAligned_findNotebookFiles)
    show ?thesis
    proof (cases "push (notebookFolders st1) d")
      case (Inl e)
      then show ?thesis using Inr r a by (simp add: Let_def)
    next
      case (Inr folders)
      have "registryAligned (st1\<lparr>notebookFolders := Some folders\<rparr>)"
        using a by (simp add: registryAligned_folders)
      then have "registryAligned (snd (snd (discoverLoop fs rt dirs (acc + n) errors1
                    (st1\<lparr>notebookFolders := Some folders\<rparr>))))"
        by (rule Cons.IH)
      then show ?thesis using \<open>findNotebookFiles fs (join [rt, d]) errors st = Inr r\<close> r Inr
        by (simp add: Let_def)
    qed
  qed
qed

lemma registryAligned_discover:
  "registryAligned st \<Longrightarrow>
     registryAligned (snd (snd (discoverFoldersContainingNotebooks fs rt errors st)))"
  by (auto simp: discoverFoldersContainingNotebooks_def registryAligned_discoverLoop
      split: sum.splits prod.splits)

text \<open>
  Claim C9. From a registry whose \<open>notebookNames\<close> and \<open>notebookPaths\<close> both exist and
  have the same length, \<open>processNotebookFolder\<close>, \<open>processBookFolder\<close>,
  \<open>discoverFoldersContainingNotebooks\<close> and \<open>findNotebookFiles\<close> each leave a registry
  with the same property, on every path through them.
\<close>

theorem registry_alignment_preserved:
  assumes "registryAligned st"
  shows "registryAligned (snd (processNotebookFolder fs folderPath st))
       \<and> registryAligned (snd (processBookFolder fs folderPath st))
       \<and> registryAligned (snd (snd (discoverFoldersContainingNotebooks fs folderPath errors st)))
       \<and> (\<forall>n es' st'. findNotebookFiles fs folderPath errors st = Inr (n, es', st') \<longrightarrow>
             registryAligned st')"
proof -
  have a: "registryAligned (snd (processNotebookFolder fs folderPath st))"
    using assms
    by (auto simp: processNotebookFolder_def registryAligned_log
        split: sum.splits prod.splits dest: registryAligned_findNotebookFiles)
  have "registryAligned (snd (snd (discoverFoldersContainingNotebooks fs folderPath (Some [])
          (log st ''Jupyter Book found!''))))"
    using assms by (simp add: registryAligned_discover registryAligned_log)
  then have b: "registryAligned (snd (processBookFolder fs folderPath st))"
    using assms
    by (auto simp: processBookFolder_def registryAligned_log problems_def Let_def
        split: sum.splits prod.splits)
  show ?thesis
    using a b assms registryAligned_discover registryAligned_findNotebookFiles by blast
qed


theorem registry_alignment_preserved_witness:
  "registryAligned emptyState
   \<and> registryAligned (snd (processNotebookFolder bookFs ''book/ch1'' emptyState))
   \<and> registryAligned (snd (processBookFolder bookFs ''book'' emptyState))"
proof -
  have a: "registryAligned emptyState"
    by (simp add: registryAligned_def emptyState_def)
  show ?thesis
    using a registry_alignment_preserved [OF a, of bookFs "''book/ch1''"]
      registry_alignment_preserved [OF a, of bookFs "''book''"]
    by blast
qed

section \<open>Paths made of valid names\<close>



lemma splitSep_nonempty: "splitSep s \<noteq> []"
  by (induction s) (auto split: list.splits)

lemma splitSep_append: "splitSep (a @ CHR ''/'' # b) = splitSep a @ splitSep b"
proof (induction a)
  case Nil
  then show ?case by simp
next
  case (Cons c a)
  then show ?case using splitSep_nonempty [of a] by (cases "splitSep a") auto
qed

lemma splitSep_joinWith:
  "segs \<noteq> [] \<Longrightarrow> \<forall>s\<in>set segs. CHR ''/'' \<notin> set s \<Longrightarrow> splitSep (joinWith ''/'' segs) = segs"
proof (induction segs rule: induct_list012)
  case 1
  then show ?case by simp
next
  case (2 x)
  then show ?case by (simp add: splitSep_plain)
next
  case (3 x y zs)
  then show ?case by (simp add: splitSep_append splitSep_plain)
qed

lemma normSegs_valid:
  "\<forall>s\<in>set segs. validName s \<Longrightarrow> normSegs allow res segs = rev res @ segs"
  by (induction segs arbitrary: res) (auto simp: validName_def)

lemma joinWith_valid_nonempty:
  "segs \<noteq> [] \<Longrightarrow> \<forall>s\<in>set segs. validName s \<Longrightarrow> joinWith ''/'' segs \<noteq> []"
  by (induction segs rule: induct_list012) (auto simp: validName_def)

lemma validName_hd: "validName x \<Longrightarrow> hd x \<noteq> CHR ''/''"
  unfolding validName_def using hd_in_set [of x] by metis

lemma validName_last: "validName x \<Longrightarrow> last x \<noteq> CHR ''/''"
  unfolding validName_def using last_in_set [of x] by metis

lemma joinWith_valid_hd:
  "segs \<noteq> [] \<Longrightarrow> \<forall>s\<in>set segs. validName s \<Longrightarrow> hd (joinWith ''/'' segs) \<noteq> CHR ''/''"
proof (induction segs rule: induct_list012)
  case 1
  then show ?case by simp
next
  case (2 x)
  then show ?case by (simp add: validName_hd)
next
  case (3 x y zs)
  then have "validName x" by simp
  then show ?case using validName_hd [of x] by (simp add: hd_append validName_def)
qed

lemma joinWith_valid_last:
  "segs \<noteq> [] \<Longrightarrow> \<forall>s\<in>set segs. validName s \<Longrightarrow> last (joinWith ''/'' segs) \<noteq> CHR ''/''"
proof (induction segs rule: induct_list012)
  case 1
  then show ?case by simp
next
  case (2 x)
  then show ?case by (simp add: validName_last)
next
  case (3 x y zs)
  then show ?case using joinWith_valid_nonempty [of "y # zs"] by simp
qed

text \<open>A path made of valid names is already normal, and resolves to those names.\<close>

lemma normalize_valid:
  assumes "segs \<noteq> []" and "\<forall>s\<in>set segs. validName s"
  shows "normalize (joinWith ''/'' segs) = joinWith ''/'' segs"
proof -
  have n: "\<forall>s\<in>set segs. CHR ''/'' \<notin> set s" using assms(2) by (simp add: validName_def)
  show ?thesis
    using joinWith_valid_nonempty [OF assms] joinWith_valid_hd [OF assms] joinWith_valid_last [OF assms]
    by (simp add: normalize_def Let_def splitSep_joinWith [OF assms(1) n] normSegs_valid [OF assms(2)])
qed

lemma resolve_valid:
  assumes "segs \<noteq> []" and "\<forall>s\<in>set segs. validName s"
  shows "resolve (joinWith ''/'' segs) = segs"
proof -
  have n: "\<forall>s\<in>set segs. CHR ''/'' \<notin> set s" using assms(2) by (simp add: validName_def)
  show ?thesis
    by (simp add: resolve_def splitSep_joinWith [OF assms(1) n] normSegs_valid [OF assms(2)])
qed

lemma lookupPath_valid:
  assumes "segs \<noteq> []" and "\<forall>s\<in>set segs. validName s"
  shows "lookupPath fs (joinWith ''/'' segs) = fs segs"
  using joinWith_valid_nonempty [OF assms] by (simp add: lookupPath_def resolve_valid [OF assms])

lemma validName_content: "validName ''content''" "validName ''readme.md''" "validName ''_data''"
  "validName ''toc.yml''"
  by (simp_all add: validName_def)

lemma join_content: "join [''.'', ''content''] = ''content''"
  by (simp add: join_def normalize_def)

lemma join_toc: "join [''.'', ''_data'', ''toc.yml''] = ''_data/toc.yml''"
  by (simp add: join_def normalize_def)

lemma join_entry:
  assumes "validName e"
  shows "join [''content'', e] = joinWith ''/'' [''content'', e]"
    and "join [''.'', ''content'', e] = joinWith ''/'' [''content'', e]"
    and "join [''.'', ''content'', e, ''readme.md''] = joinWith ''/'' [''content'', e, ''readme.md'']"
proof -
  have e: "e \<noteq> []" using assms by (simp add: validName_def)
  have v2: "\<forall>s\<in>set [''content'', e]. validName s" using assms by (simp add: validName_content)
  have v3: "\<forall>s\<in>set [''content'', e, ''readme.md'']. validName s" using assms by (simp add: validName_content)
  have n2: "normalize (joinWith ''/'' [''content'', e]) = joinWith ''/'' [''content'', e]"
    by (rule normalize_valid [OF _ v2]) simp
  have n3: "normalize (joinWith ''/'' [''content'', e, ''readme.md'']) = joinWith ''/'' [''content'', e, ''readme.md'']"
    by (rule normalize_valid [OF _ v3]) simp
  show "join [''content'', e] = joinWith ''/'' [''content'', e]"
    using e n2 by (simp add: join_def)
  have l: "last e \<noteq> CHR ''/''" using assms by (rule validName_last)
  have d2: "normalize (''./content/'' @ e) = joinWith ''/'' [''content'', e]"
    using assms l
    by (simp add: normalize_def Let_def splitSep_plain normSegs_valid validName_def)
  show "join [''.'', ''content'', e] = joinWith ''/'' [''content'', e]"
    using e d2 by (simp add: join_def)
  have d3: "normalize (''./content/'' @ e @ ''/readme.md'') = joinWith ''/'' [''content'', e, ''readme.md'']"
    using assms
    by (simp add: normalize_def Let_def splitSep_plain splitSep_append normSegs_valid validName_def)
  show "join [''.'', ''content'', e, ''readme.md''] = joinWith ''/'' [''content'', e, ''readme.md'']"
    using e d3 by (simp add: join_def)
qed

lemma join_nested:
  assumes "validName e" and "validName n"
  shows "join [joinWith ''/'' [''content'', e], n] = joinWith ''/'' [''content'', e, n]"
proof -
  have n: "n \<noteq> []" using assms by (simp add: validName_def)
  have v3: "\<forall>s\<in>set [''content'', e, n]. validName s" using assms by (simp add: validName_content)
  have n3: "normalize (joinWith ''/'' [''content'', e, n]) = joinWith ''/'' [''content'', e, n]"
    by (rule normalize_valid [OF _ v3]) simp
  show ?thesis using n n3 by (simp add: join_def)
qed


text \<open>What the paths built by the table-of-contents code resolve to.\<close>

lemma lookup_content: "lookupPath fs (join [''.'', ''content'']) = fs [''content'']"
  by (simp add: join_content lookupPath_def resolve_def)

lemma lookup_entry:
  assumes "validName e"
  shows "lookupPath fs (join [join [''.'', ''content''], e]) = fs [''content'', e]"
    and "lookupPath fs (join [''.'', ''content'', e]) = fs [''content'', e]"
proof -
  have v: "\<forall>s\<in>set [''content'', e]. validName s" using assms by (simp add: validName_content)
  have l: "lookupPath fs (joinWith ''/'' [''content'', e]) = fs [''content'', e]"
    by (rule lookupPath_valid [OF _ v]) simp
  show "lookupPath fs (join [join [''.'', ''content''], e]) = fs [''content'', e]"
    using l by (simp only: join_content join_entry(1) [OF assms])
  show "lookupPath fs (join [''.'', ''content'', e]) = fs [''content'', e]"
    using l by (simp only: join_entry(2) [OF assms])
qed

lemma lookup_nested:
  assumes "validName e" and "validName n"
  shows "lookupPath fs (join [join [''.'', ''content'', e], n]) = fs [''content'', e, n]"
proof -
  have v: "\<forall>s\<in>set [''content'', e, n]. validName s" using assms by (simp add: validName_content)
  have l: "lookupPath fs (joinWith ''/'' [''content'', e, n]) = fs [''content'', e, n]"
    by (rule lookupPath_valid [OF _ v]) simp
  show ?thesis
    using l by (simp only: join_entry(2) [OF assms(1)] join_nested [OF assms])
qed

lemma resolve_readme:
  assumes "validName e"
  shows "resolve (join [''.'', ''content'', e, ''readme.md'']) = [''content'', e, ''readme.md'']"
    and "join [''.'', ''content'', e, ''readme.md''] \<noteq> []"
proof -
  have v: "\<forall>s\<in>set [''content'', e, ''readme.md'']. validName s"
    using assms by (simp add: validName_content)
  have r: "resolve (joinWith ''/'' [''content'', e, ''readme.md'']) = [''content'', e, ''readme.md'']"
    by (rule resolve_valid [OF _ v]) simp
  have n: "joinWith ''/'' [''content'', e, ''readme.md''] \<noteq> []"
    by (rule joinWith_valid_nonempty [OF _ v]) simp
  show "resolve (join [''.'', ''content'', e, ''readme.md'']) = [''content'', e, ''readme.md'']"
    using r by (simp only: join_entry(3) [OF assms])
  show "join [''.'', ''content'', e, ''readme.md''] \<noteq> []"
    unfolding join_entry(3) [OF assms] by (rule n)
qed

lemma resolve_toc:
  "resolve (join [''.'', ''_data'', ''toc.yml'']) = [''_data'', ''toc.yml'']"
  "join [''.'', ''_data'', ''toc.yml''] \<noteq> []"
  by (simp_all add: join_toc resolve_def)


section \<open>The chapter loops skip the names containing readme\<close>

lemma writeForEachNotebookLoop_filter:
  "writeForEachNotebookLoop fs ch dir names c
     = writeForEachNotebookLoop fs ch dir (filter noReadme names) c"
  by (induction names arbitrary: c) (auto simp: noReadme_def Let_def split: sum.splits)

lemma writeToReadmeLoop_filter:
  "writeToReadmeLoop fs dir names c = writeToReadmeLoop fs dir (filter noReadme names) c"
  by (induction names arbitrary: c) (auto simp: noReadme_def Let_def split: sum.splits)

lemma writeForEachNotebookLoop_cong:
  assumes "\<forall>n\<in>set names. findTitle a n (join [dir, n]) = findTitle b n (join [dir, n])"
  shows "writeForEachNotebookLoop a ch dir names c = writeForEachNotebookLoop b ch dir names c"
  using assms by (induction names arbitrary: c) (auto simp: Let_def split: sum.splits)

lemma writeToReadmeLoop_cong:
  assumes "\<forall>n\<in>set names. findTitle a n (join [dir, n]) = findTitle b n (join [dir, n])"
  shows "writeToReadmeLoop a dir names c = writeToReadmeLoop b dir names c"
  using assms by (induction names arbitrary: c) (auto simp: Let_def split: sum.splits)

lemma noReadme_readme_md: "\<not> noReadme ''readme.md''"
  by (simp add: noReadme_def)

section \<open>Agreement\<close>

lemma sameKind_refl: "sameKind x x"
  by (simp add: sameKind_def)

lemma sameKind_sym: "sameKind x y \<Longrightarrow> sameKind y x"
  by (auto simp: sameKind_def)

lemma sameKind_trans: "sameKind x y \<Longrightarrow> sameKind y z \<Longrightarrow> sameKind x z"
  by (auto simp: sameKind_def)

lemma agree_refl: "agree a a"
  by (simp add: agree_def sameKind_refl)

lemma agree_sym: "agree a b \<Longrightarrow> agree b a"
  by (simp add: agree_def sameKind_sym)

lemma agree_trans:
  assumes "agree a b" and "agree b c"
  shows "agree a c"
proof -
  have 1: "a [''content''] = c [''content'']"
    using assms by (simp add: agree_def)
  have 2: "sameKind (a [''content'', e]) (c [''content'', e])" for e
  proof -
    have "sameKind (a [''content'', e]) (b [''content'', e])" using assms(1) by (simp add: agree_def)
    moreover have "sameKind (b [''content'', e]) (c [''content'', e])" using assms(2) by (simp add: agree_def)
    ultimately show ?thesis by (rule sameKind_trans)
  qed
  have 3: "noReadme n \<longrightarrow> a [''content'', e, n] = c [''content'', e, n]" for e n
    using assms by (simp add: agree_def)
  have 4: "isDirE (a [''content'', e, ''readme.md'']) = isDirE (c [''content'', e, ''readme.md''])" for e
    using assms by (simp add: agree_def)
  show ?thesis unfolding agree_def using 1 2 3 4 by blast
qed

text \<open>What agreeing file systems answer alike.\<close>

lemma agree_stat:
  assumes "agree a b" and "validName e"
  shows "statSync a (join [join [''.'', ''content''], e]) = statSync b (join [join [''.'', ''content''], e])"
proof -
  have "sameKind (a [''content'', e]) (b [''content'', e])" using assms(1) by (simp add: agree_def)
  then consider (same) "a [''content'', e] = b [''content'', e]"
    | (dirs) ns ms where "a [''content'', e] = Some (DirE ns)" "b [''content'', e] = Some (DirE ms)"
    by (auto simp: sameKind_def)
  then show ?thesis
  proof cases
    case same
    then show ?thesis by (simp add: statSync_def lookup_entry(1) [OF assms(2)])
  next
    case dirs
    then show ?thesis by (simp add: statSync_def lookup_entry(1) [OF assms(2)])
  qed
qed

lemma agree_findTitle_nested:
  assumes "agree a b" and "validName e" and "validName n" and "noReadme n"
  shows "findTitle a n (join [join [''.'', ''content'', e], n])
           = findTitle b n (join [join [''.'', ''content'', e], n])"
proof -
  have "a [''content'', e, n] = b [''content'', e, n]" using assms(1,4) by (simp add: agree_def)
  then show ?thesis
    by (simp add: findTitle_def readFileSync_def lookup_nested [OF assms(2,3)])
qed

lemma agree_findTitle_top:
  assumes "agree a b" and "validName e"
  shows "findTitle a e (join [join [''.'', ''content''], e])
           = findTitle b e (join [join [''.'', ''content''], e])"
proof -
  have "sameKind (a [''content'', e]) (b [''content'', e])" using assms(1) by (simp add: agree_def)
  then have "readFileSync a (join [join [''.'', ''content''], e])
               = readFileSync b (join [join [''.'', ''content''], e])"
    by (auto simp: readFileSync_def lookup_entry(1) [OF assms(2)] sameKind_def)
  then show ?thesis by (simp add: findTitle_def)
qed

lemma agree_writeSingleNotebook:
  assumes "agree a b" and "validName e"
  shows "writeSingleNotebook a (join [''.'', ''content'']) e = writeSingleNotebook b (join [''.'', ''content'']) e"
  by (simp add: writeSingleNotebook_def agree_findTitle_top [OF assms])

lemma agree_chapter_loops:
  assumes "agree a b" and "wellNamed a" and "wellNamed b" and "validName e"
  shows "writeForEachNotebook a e (join [''.'', ''content'', e]) = writeForEachNotebook b e (join [''.'', ''content'', e])"
    and "readmeText a (join [''.'', ''content'', e]) = readmeText b (join [''.'', ''content'', e])"
proof -
  let ?P = "join [''.'', ''content'', e]"
  have k: "sameKind (a [''content'', e]) (b [''content'', e])" using assms(1) by (simp add: agree_def)
  have t: "findTitle a n (join [?P, n]) = findTitle b n (join [?P, n])"
    if "validName n" "noReadme n" for n
    using agree_findTitle_nested [OF assms(1,4) that] .
  have d: "writeForEachNotebookLoop a e ?P ns c = writeForEachNotebookLoop b e ?P ms c
           \<and> writeToReadmeLoop a ?P ns c = writeToReadmeLoop b ?P ms c"
    if h: "a [''content'', e] = Some (DirE ns)" "b [''content'', e] = Some (DirE ms)"
      "filter noReadme ns = filter noReadme ms" for ns ms c
  proof -
    have v: "\<forall>n\<in>set ns. validName n" using assms(2) h(1) unfolding wellNamed_def by blast
    have f: "\<forall>n\<in>set (filter noReadme ns). findTitle a n (join [?P, n]) = findTitle b n (join [?P, n])"
      using v t by simp
    have "writeForEachNotebookLoop a e ?P ns c = writeForEachNotebookLoop a e ?P (filter noReadme ns) c"
      by (rule writeForEachNotebookLoop_filter)
    also have "\<dots> = writeForEachNotebookLoop b e ?P (filter noReadme ns) c"
      using f by (rule writeForEachNotebookLoop_cong)
    also have "\<dots> = writeForEachNotebookLoop b e ?P ms c"
      unfolding h(3) by (rule writeForEachNotebookLoop_filter [symmetric])
    finally have 1: "writeForEachNotebookLoop a e ?P ns c = writeForEachNotebookLoop b e ?P ms c" .
    have "writeToReadmeLoop a ?P ns c = writeToReadmeLoop a ?P (filter noReadme ns) c"
      by (rule writeToReadmeLoop_filter)
    also have "\<dots> = writeToReadmeLoop b ?P (filter noReadme ns) c"
      using f by (rule writeToReadmeLoop_cong)
    also have "\<dots> = writeToReadmeLoop b ?P ms c"
      unfolding h(3) by (rule writeToReadmeLoop_filter [symmetric])
    finally show ?thesis using 1 by simp
  qed
  have cs: "(\<exists>ns ms. a [''content'', e] = Some (DirE ns) \<and> b [''content'', e] = Some (DirE ms)
                \<and> filter noReadme ns = filter noReadme ms)
            \<or> (\<exists>x. a [''content'', e] = Some (FileE x) \<and> b [''content'', e] = Some (FileE x))
            \<or> (a [''content'', e] = None \<and> b [''content'', e] = None)"
  proof (cases "a [''content'', e]")
    case None
    then show ?thesis using k by (auto simp: sameKind_def)
  next
    case (Some x)
    have "b [''content'', e] = Some x \<or> (\<exists>ns ms. a [''content'', e] = Some (DirE ns)
            \<and> b [''content'', e] = Some (DirE ms) \<and> filter noReadme ns = filter noReadme ms)"
      using k Some unfolding sameKind_def by metis
    then show ?thesis using Some by (cases x) auto
  qed
  show "writeForEachNotebook a e ?P = writeForEachNotebook b e ?P"
    using cs d
    by (auto simp: writeForEachNotebook_def readdirSync_def lookup_entry(2) [OF assms(4)])
  show "readmeText a ?P = readmeText b ?P"
    using cs d
    by (auto simp: readmeText_def readdirSync_def lookup_entry(2) [OF assms(4)])
qed

lemma agree_attemptsReadme:
  assumes "agree a b" and "wellNamed a" and "wellNamed b" and "validName e"
  shows "attemptsReadme ctx a e = attemptsReadme ctx b e"
  by (simp add: attemptsReadme_def agree_stat [OF assms(1,4)] agree_chapter_loops(1) [OF assms])


section \<open>What a write changes\<close>

lemma writeFileSync_effect:
  assumes "writeFileSync fs p c = Inr fs'" and "resolve p = r" and "r \<noteq> []"
  shows "\<not> isDirE (fs r)"
    and "fs' r = Some (FileE c)"
    and "\<And>q. q \<noteq> r \<Longrightarrow> q \<noteq> butlast r \<Longrightarrow> fs' q = fs q"
    and "fs' (butlast r) = fs (butlast r)
         \<or> (\<exists>names. fs (butlast r) = Some (DirE names)
               \<and> fs' (butlast r) = Some (DirE (names @ [last r])))"
proof -
  have b: "butlast r \<noteq> r" using assms(3) by (metis self_append_conv snoc_eq_iff_butlast)
  have "\<not> isDirE (fs r) \<and> fs' r = Some (FileE c)
        \<and> (\<forall>q. q \<noteq> r \<longrightarrow> q \<noteq> butlast r \<longrightarrow> fs' q = fs q)
        \<and> (fs' (butlast r) = fs (butlast r)
            \<or> (\<exists>names. fs (butlast r) = Some (DirE names)
               \<and> fs' (butlast r) = Some (DirE (names @ [last r]))))"
    using assms b
    by (auto simp: writeFileSync_def Let_def isDirE_def split: if_splits option.splits entry.splits)
  then show "\<not> isDirE (fs r)" and "fs' r = Some (FileE c)"
    and "\<And>q. q \<noteq> r \<Longrightarrow> q \<noteq> butlast r \<Longrightarrow> fs' q = fs q"
    and "fs' (butlast r) = fs (butlast r)
         \<or> (\<exists>names. fs (butlast r) = Some (DirE names)
               \<and> fs' (butlast r) = Some (DirE (names @ [last r])))"
    by blast+
qed

lemma writeFileSync_present:
  assumes "fs (resolve p) = Some (FileE c)" and "p \<noteq> []"
  shows "writeFileSync fs p c = Inr fs"
proof -
  have "fs(resolve p \<mapsto> FileE c) = fs" using assms(1) by (rule map_upd_triv)
  then show ?thesis using assms by (simp add: writeFileSync_def Let_def)
qed

lemma writeFileSync_outcome:
  assumes "p \<noteq> []" and "resolve p = r" and "r \<noteq> []" and "fs (butlast r) = Some (DirE names)"
  shows "isDirE (fs r) \<Longrightarrow> writeFileSync fs p c = Inl (eisdir ''open'' p)"
    and "\<not> isDirE (fs r) \<Longrightarrow> \<exists>fs'. writeFileSync fs p c = Inr fs'"
  using assms
  by (auto simp: writeFileSync_def Let_def isDirE_def split: option.splits entry.splits)

lemma wellNamed_write:
  assumes "wellNamed fs" and "writeFileSync fs p c = Inr fs'" and "resolve p = r" and "r \<noteq> []"
    and "validName (last r)"
  shows "wellNamed fs'"
  unfolding wellNamed_def
proof (intro allI impI)
  fix q names
  assume q: "fs' q = Some (DirE names)"
  note e = writeFileSync_effect [OF assms(2,3,4)]
  have qr: "q \<noteq> r" using q e(2) by auto
  show "\<forall>n\<in>set names. validName n"
  proof (cases "q = butlast r")
    case True
    from e(4) show ?thesis
    proof
      assume "fs' (butlast r) = fs (butlast r)"
      then show ?thesis using q True assms(1) unfolding wellNamed_def by metis
    next
      assume "\<exists>ns. fs (butlast r) = Some (DirE ns) \<and> fs' (butlast r) = Some (DirE (ns @ [last r]))"
      then obtain ns where ns: "fs (butlast r) = Some (DirE ns)" "fs' (butlast r) = Some (DirE (ns @ [last r]))"
        by blast
      have "\<forall>n\<in>set ns. validName n" using ns(1) assms(1) unfolding wellNamed_def by blast
      moreover have "names = ns @ [last r]" using q True ns(2) by simp
      ultimately show ?thesis using assms(5) by auto
    qed
  next
    case False
    then have "fs q = Some (DirE names)" using e(3) [OF qr] q by simp
    then show ?thesis using assms(1) unfolding wellNamed_def by blast
  qed
qed

lemma agree_write_readme:
  assumes "validName e" and "writeFileSync fs (join [''.'', ''content'', e, ''readme.md'']) c = Inr fs'"
  shows "agree fs fs'"
proof -
  let ?r = "[''content'', e, ''readme.md'']"
  note w = writeFileSync_effect [OF assms(2) resolve_readme(1) [OF assms(1)], simplified]
  have 1: "fs [''content''] = fs' [''content'']" using w(3) [of "[''content'']"] by simp
  have 2: "sameKind (fs [''content'', x]) (fs' [''content'', x])" for x
  proof (cases "x = e")
    case True
    from w(4) show ?thesis
    proof
      assume "fs' [''content'', e] = fs [''content'', e]"
      then show ?thesis using True by (simp add: sameKind_def)
    next
      assume "\<exists>names. fs [''content'', e] = Some (DirE names)
                \<and> fs' [''content'', e] = Some (DirE (names @ [''readme.md'']))"
      then show ?thesis using True by (auto simp: sameKind_def noReadme_readme_md)
    qed
  next
    case False
    then have "fs' [''content'', x] = fs [''content'', x]" using w(3) [of "[''content'', x]"] by simp
    then show ?thesis by (simp add: sameKind_def)
  qed
  have 3: "noReadme n \<longrightarrow> fs [''content'', x, n] = fs' [''content'', x, n]" for x n
  proof
    assume "noReadme n"
    then have "n \<noteq> ''readme.md''" using noReadme_readme_md by auto
    then show "fs [''content'', x, n] = fs' [''content'', x, n]"
      using w(3) [of "[''content'', x, n]"] by simp
  qed
  have 4: "isDirE (fs [''content'', x, ''readme.md'']) = isDirE (fs' [''content'', x, ''readme.md''])" for x
  proof (cases "x = e")
    case True
    then show ?thesis using w(1,2) by (simp add: isDirE_def)
  next
    case False
    then have "fs' [''content'', x, ''readme.md''] = fs [''content'', x, ''readme.md'']"
      using w(3) [of "[''content'', x, ''readme.md'']"] by simp
    then show ?thesis by simp
  qed
  show ?thesis unfolding agree_def using 1 2 3 4 by blast
qed

lemma agree_write_toc:
  assumes "writeFileSync fs (join [''.'', ''_data'', ''toc.yml'']) c = Inr fs'"
  shows "agree fs fs'"
    and "\<And>e. fs' [''content'', e, ''readme.md''] = fs [''content'', e, ''readme.md'']"
proof -
  note w = writeFileSync_effect [OF assms resolve_toc(1), simplified]
  have 1: "fs [''content''] = fs' [''content'']" using w(3) [of "[''content'']"] by simp
  have 2: "sameKind (fs [''content'', x]) (fs' [''content'', x])" for x
    using w(3) [of "[''content'', x]"] by (simp add: sameKind_def)
  have 3: "noReadme n \<longrightarrow> fs [''content'', x, n] = fs' [''content'', x, n]" for x n
    using w(3) [of "[''content'', x, n]"] by simp
  show 5: "fs' [''content'', x, ''readme.md''] = fs [''content'', x, ''readme.md'']" for x
    using w(3) [of "[''content'', x, ''readme.md'']"] by simp
  have 4: "isDirE (fs [''content'', x, ''readme.md'']) = isDirE (fs' [''content'', x, ''readme.md''])" for x
    using 5 [of x] by simp
  show "agree fs fs'" unfolding agree_def using 1 2 3 4 by blast
qed


section \<open>One entry of the content folder\<close>

lemma attemptsReadme_dir:
  assumes "attemptsReadme ctx fs e" and "validName e"
  shows "\<exists>names. fs [''content'', e] = Some (DirE names)"
  using assms
  by (auto simp: attemptsReadme_def statSync_def lookup_entry(1) split: option.splits entry.splits)

lemma writeToReadme_cases:
  assumes "validName e" and "fs [''content'', e] = Some (DirE names)"
  shows "readmeText fs (join [''.'', ''content'', e]) = Inl x \<Longrightarrow>
           writeToReadme fs (join [''.'', ''content'', e]) e = Inl x"
    and "readmeText fs (join [''.'', ''content'', e]) = Inr c \<Longrightarrow>
           isDirE (fs [''content'', e, ''readme.md'']) \<Longrightarrow>
           writeToReadme fs (join [''.'', ''content'', e]) e
             = Inl (eisdir ''open'' (join [''.'', ''content'', e, ''readme.md'']))"
    and "readmeText fs (join [''.'', ''content'', e]) = Inr c \<Longrightarrow>
           \<not> isDirE (fs [''content'', e, ''readme.md'']) \<Longrightarrow>
           \<exists>fs'. writeToReadme fs (join [''.'', ''content'', e]) e = Inr fs'
                 \<and> writeFileSync fs (join [''.'', ''content'', e, ''readme.md'']) c = Inr fs'"
proof -
  let ?R = "join [''.'', ''content'', e, ''readme.md'']"
  have b: "fs (butlast [''content'', e, ''readme.md'']) = Some (DirE names)" using assms(2) by simp
  have ne: "[''content'', e, ''readme.md''] \<noteq> []" by simp
  note o = writeFileSync_outcome [where fs = fs and names = names,
      OF resolve_readme(2) [OF assms(1)] resolve_readme(1) [OF assms(1)] ne b]
  show "readmeText fs (join [''.'', ''content'', e]) = Inl x \<Longrightarrow>
           writeToReadme fs (join [''.'', ''content'', e]) e = Inl x"
    by (simp add: writeToReadme_def)
  show "readmeText fs (join [''.'', ''content'', e]) = Inr c \<Longrightarrow>
           isDirE (fs [''content'', e, ''readme.md'']) \<Longrightarrow>
           writeToReadme fs (join [''.'', ''content'', e]) e = Inl (eisdir ''open'' ?R)"
    using o(1) [of c] by (simp add: writeToReadme_def)
  show "readmeText fs (join [''.'', ''content'', e]) = Inr c \<Longrightarrow>
           \<not> isDirE (fs [''content'', e, ''readme.md'']) \<Longrightarrow>
           \<exists>fs'. writeToReadme fs (join [''.'', ''content'', e]) e = Inr fs'
                 \<and> writeFileSync fs ?R c = Inr fs'"
    using o(2) [of c] by (auto simp: writeToReadme_def)
qed

lemma disk_tocEntry: "disk (tocEntry ctx s e) = afterEntry ctx (disk s) e"
  by (auto simp: tocEntry_def afterEntry_def attemptsReadme_def Let_def
      split: sum.splits option.splits)

lemma afterEntry_agree:
  assumes "wellNamed fs" and "validName e"
  shows "agree fs (afterEntry ctx fs e)" and "wellNamed (afterEntry ctx fs e)"
proof -
  let ?P = "join [''.'', ''content'', e]"
  let ?R = "join [''.'', ''content'', e, ''readme.md'']"
  have "agree fs (afterEntry ctx fs e) \<and> wellNamed (afterEntry ctx fs e)"
  proof (cases "attemptsReadme ctx fs e")
    case False
    then show ?thesis using assms(1) by (simp add: afterEntry_def agree_refl)
  next
    case True
    show ?thesis
    proof (cases "writeToReadme fs ?P e")
      case (Inl x)
      then show ?thesis using True assms(1) by (simp add: afterEntry_def agree_refl)
    next
      case (Inr fs')
      then obtain c where w: "writeFileSync fs ?R c = Inr fs'"
        by (auto simp: writeToReadme_def split: sum.splits)
      have a: "agree fs fs'" using assms(2) w by (rule agree_write_readme)
      have n: "wellNamed fs'"
        by (rule wellNamed_write [OF assms(1) w resolve_readme(1) [OF assms(2)]])
          (simp_all add: validName_content)
      show ?thesis using True Inr a n by (simp add: afterEntry_def)
    qed
  qed
  then show "agree fs (afterEntry ctx fs e)" and "wellNamed (afterEntry ctx fs e)" by simp_all
qed

text \<open>On agreeing file systems the entry adds the same text, count and printed lines.\<close>

lemma writeToReadme_same_outcome:
  assumes "agree a b" and "wellNamed a" and "wellNamed b" and "validName e"
    and "attemptsReadme ctx a e"
  shows "(\<exists>x. writeToReadme a (join [''.'', ''content'', e]) e = Inl x
             \<and> writeToReadme b (join [''.'', ''content'', e]) e = Inl x)
       \<or> (\<exists>a' b'. writeToReadme a (join [''.'', ''content'', e]) e = Inr a'
             \<and> writeToReadme b (join [''.'', ''content'', e]) e = Inr b')"
proof -
  let ?P = "join [''.'', ''content'', e]"
  let ?r = "[''content'', e, ''readme.md'']"
  have ab: "attemptsReadme ctx b e" using assms by (simp add: agree_attemptsReadme [OF assms(1-4)])
  obtain na where na: "a [''content'', e] = Some (DirE na)" using attemptsReadme_dir [OF assms(5,4)] by blast
  obtain nb where nb: "b [''content'', e] = Some (DirE nb)" using attemptsReadme_dir [OF ab assms(4)] by blast
  have t: "readmeText a ?P = readmeText b ?P" by (rule agree_chapter_loops(2) [OF assms(1-4)])
  have d: "isDirE (a ?r) = isDirE (b ?r)" using assms(1) by (simp add: agree_def)
  show ?thesis
  proof (cases "readmeText a ?P")
    case (Inl x)
    then show ?thesis
      using writeToReadme_cases(1) [where fs = a and names = na and e = e, OF assms(4) na, of x] writeToReadme_cases(1) [where fs = b and names = nb and e = e, OF assms(4) nb, of x] t
      by simp
  next
    case (Inr c)
    show ?thesis
    proof (cases "isDirE (a ?r)")
      case True
      then show ?thesis
        using writeToReadme_cases(2) [where fs = a and names = na and e = e, OF assms(4) na, of c] writeToReadme_cases(2) [where fs = b and names = nb and e = e, OF assms(4) nb, of c]
          t d Inr by simp
    next
      case False
      then show ?thesis
        using writeToReadme_cases(3) [where fs = a and names = na and e = e, OF assms(4) na, of c] writeToReadme_cases(3) [where fs = b and names = nb and e = e, OF assms(4) nb, of c]
          t d Inr by auto
    qed
  qed
qed

lemma tocEntry_sameProgress:
  assumes "agree (disk s) (disk t)" and "wellNamed (disk s)" and "wellNamed (disk t)"
    and "validName e" and "sameProgress s t"
  shows "sameProgress (tocEntry ctx s e) (tocEntry ctx t e)"
proof -
  let ?D = "join [join [''.'', ''content''], e]"
  let ?P = "join [''.'', ''content'', e]"
  have 1: "statSync (disk s) ?D = statSync (disk t) ?D" by (rule agree_stat [OF assms(1,4)])
  have 2: "writeForEachNotebook (disk s) e ?P = writeForEachNotebook (disk t) e ?P"
    by (rule agree_chapter_loops(1) [OF assms(1-4)])
  have 3: "writeSingleNotebook (disk s) (join [''.'', ''content'']) e
             = writeSingleNotebook (disk t) (join [''.'', ''content'']) e"
    by (rule agree_writeSingleNotebook [OF assms(1,4)])
  show ?thesis
  proof (cases "attemptsReadme ctx (disk s) e")
    case True
    note o = writeToReadme_same_outcome [OF assms(1-4) True]
    obtain names nested where c: "chapterNames ctx = Some names"
        "writeForEachNotebook (disk s) e ?P = Inr nested" "statSync (disk s) ?D = Inr True"
      using True by (auto simp: attemptsReadme_def)
    show ?thesis
      using o c 1 2 assms(5)
      by (auto simp: tocEntry_def sameProgress_def Let_def)
  next
    case False
    then show ?thesis
      using 1 2 3 assms(5)
      by (auto simp: tocEntry_def sameProgress_def attemptsReadme_def Let_def
          split: sum.splits option.splits)
  qed
qed

section \<open>The sample book\<close>


lemma findTitle_md_line:
  assumes "lookupPath fs p = Some (FileE data)" and "extname file = ''.md''"
    and "splitLines data ! 0 = l" and "l \<noteq> []"
    and "\<not> (7 \<le> length (splitLines data) \<and> sublist ''collapsed'' (splitLines data ! 6))"
  shows "findTitle fs file p = Inr (Some (cleanTitle l))"
proof -
  have u: "\<not> (7 \<le> length (splitLines data)
              \<and> (case elementAt (splitLines data) 6 of Some l \<Rightarrow> -1 < indexOf l ''collapsed'' | None \<Rightarrow> False))"
    using assms(5) by (auto simp: elementAt_def indexOf_sublist)
  show ?thesis
    using assms(1-4) u by (auto simp: findTitle_def readFileSync_def Let_def elementAt_0)
qed

lemma sample_names:
  "validName ''ch1''" "validName ''standalone.md''" "validName ''intro.md''"
  "extname ''intro.md'' = ''.md''" "extname ''standalone.md'' = ''.md''"
  "noReadme ''intro.md''"
  "getSlicedFilename (basename ''intro.md'') = ''intro''"
  "getSlicedFilename (basename ''standalone.md'') = ''standalone''"
  by (simp_all add: validName_def extname_def basename_def noReadme_def getSlicedFilename_def sliceEnd_def)

lemma sample_lower:
  "toLowerCase ''ch1'' = ''ch1''" "toLowerCase ''intro'' = ''intro''"
  "toLowerCase ''standalone'' = ''standalone''"
  by code_simp+

lemma sample_titles:
  "cleanTitle ''# Intro'' = ''Intro''" "cleanTitle ''# Standalone'' = ''Standalone''"
  by (simp_all add: cleanTitle_def stripChars_def strippedChars_def trim_def isWhiteSpace_def)


text \<open>The chapter of the sample book, from any state of the loop that has met no chapter yet.\<close>

lemma sample_chapter_entry:
  assumes "disk s [''content'', ''ch1''] = Some (DirE chapterFiles)"
    and "filter noReadme chapterFiles = [''intro.md'']"
    and "disk s [''content'', ''ch1'', ''intro.md''] = Some (FileE intro)"
    and "\<not> isDirE (disk s [''content'', ''ch1'', ''readme.md''])"
    and "splitLines intro ! 0 = ''# Intro''"
    and "\<not> (7 \<le> length (splitLines intro) \<and> sublist ''collapsed'' (splitLines intro ! 6))"
    and "chapterNames ctx = Some (chapterTitle # others)"
    and "idx s = 0"
  shows "\<exists>fs1. writeFileSync (disk s) (join [''.'', ''content'', ''ch1'', ''readme.md''])
                  (''## Notebooks in this Chapter'' @ [LF] @ ''- [Intro](intro.md)'' @ [LF]) = Inr fs1
           \<and> tocEntry ctx s ''ch1''
               = s\<lparr>tocContent := tocContent s
                     @ ''- title: '' @ chapterTitle @ [LF] @ ''  url: ch1/readme'' @ [LF]
                     @ ''  not_numbered: true'' @ [LF] @ ''  expand_sections: true'' @ [LF]
                     @ ''  sections: '' @ [LF]
                     @ ''  - title: Intro'' @ [LF] @ ''    url: ch1/intro'' @ [LF],
                    idx := 1, disk := fs1\<rparr>"
proof -
  let ?fs = "disk s"
  let ?P = "join [''.'', ''content'', ''ch1'']"
  let ?R = "join [''.'', ''content'', ''ch1'', ''readme.md'']"
  let ?readme = "''## Notebooks in this Chapter'' @ [LF] @ ''- [Intro](intro.md)'' @ [LF]"
  let ?nested = "''  - title: Intro'' @ [LF] @ ''    url: ch1/intro'' @ [LF]"
  have ti: "findTitle ?fs ''intro.md'' (join [?P, ''intro.md'']) = Inr (Some ''Intro'')"
    using findTitle_md_line [of ?fs "join [?P, ''intro.md'']" intro "''intro.md''" "''# Intro''"]
      assms(3,5,6)
    by (simp add: lookup_nested sample_names sample_titles)
  have loop1: "writeForEachNotebookLoop ?fs ''ch1'' ?P chapterFiles [] = Inr ?nested"
    unfolding writeForEachNotebookLoop_filter [of ?fs "''ch1''" ?P chapterFiles] assms(2)
    using ti sample_names(6) by (simp add: noReadme_def sample_names sample_lower showValue_def)
  have loop2: "writeToReadmeLoop ?fs ?P chapterFiles (''## Notebooks in this Chapter'' @ [LF]) = Inr ?readme"
    unfolding writeToReadmeLoop_filter [of ?fs ?P chapterFiles] assms(2)
    using ti sample_names(6) by (simp add: noReadme_def showValue_def)
  have w1: "writeForEachNotebook ?fs ''ch1'' ?P = Inr ?nested"
    using loop1 assms(1) by (simp add: writeForEachNotebook_def readdirSync_def lookup_entry sample_names)
  have rt: "readmeText ?fs ?P = Inr ?readme"
    using loop2 assms(1) by (simp add: readmeText_def readdirSync_def lookup_entry sample_names)
  obtain fs1 where f1: "writeToReadme ?fs ?P ''ch1'' = Inr fs1" "writeFileSync ?fs ?R ?readme = Inr fs1"
    using writeToReadme_cases(3) [where fs = ?fs and e = "''ch1''" and names = chapterFiles,
        OF sample_names(1) assms(1) rt assms(4)] by blast
  have st1: "statSync ?fs (join [join [''.'', ''content''], ''ch1'']) = Inr True"
    using assms(1) by (simp add: statSync_def lookup_entry sample_names)
  have "tocEntry ctx s ''ch1''
               = s\<lparr>tocContent := tocContent s
                     @ ''- title: '' @ chapterTitle @ [LF] @ ''  url: ch1/readme'' @ [LF]
                     @ ''  not_numbered: true'' @ [LF] @ ''  expand_sections: true'' @ [LF]
                     @ ''  sections: '' @ [LF] @ ?nested,
                    idx := 1, disk := fs1\<rparr>"
    using st1 w1 f1(1) assms(7,8) by (simp add: tocEntry_def Let_def elementAt_def showValue_def)
  then show ?thesis using f1(2) by simp
qed

text \<open>The top-level file of the sample book.\<close>

lemma sample_flat_entry:
  assumes "disk s [''content'', ''standalone.md''] = Some (FileE standalone)"
    and "splitLines standalone ! 0 = ''# Standalone''"
    and "\<not> (7 \<le> length (splitLines standalone) \<and> sublist ''collapsed'' (splitLines standalone ! 6))"
  shows "tocEntry ctx s ''standalone.md''
           = s\<lparr>tocContent := tocContent s @ ''- title: Standalone'' @ [LF] @ ''  url: standalone'' @ [LF]\<rparr>"
proof -
  let ?fs = "disk s"
  have st2: "statSync ?fs (join [join [''.'', ''content''], ''standalone.md'']) = Inr False"
    using assms(1) by (simp add: statSync_def lookup_entry sample_names)
  have ts: "findTitle ?fs ''standalone.md'' (join [join [''.'', ''content''], ''standalone.md''])
              = Inr (Some ''Standalone'')"
    using findTitle_md_line [of ?fs "join [join [''.'', ''content''], ''standalone.md'']" standalone
        "''standalone.md''" "''# Standalone''"] assms
    by (simp add: lookup_entry sample_names sample_titles)
  have w2: "writeSingleNotebook ?fs (join [''.'', ''content'']) ''standalone.md''
              = Inr (''- title: Standalone'' @ [LF] @ ''  url: standalone'' @ [LF])"
    using ts by (simp add: writeSingleNotebook_def Let_def sample_names sample_lower showValue_def)
  show ?thesis using st2 w2 by (simp add: tocEntry_def Let_def)
qed

text \<open>
  Claim C5, amended. Let \<open>content\<close> list the directory \<open>ch1\<close> and the file
  \<open>standalone.md\<close>, in either order; let \<open>ch1\<close> list \<open>intro.md\<close> and, besides it, only names
  containing \<open>readme\<close>; let the first lines be \<open># Intro\<close> and \<open># Standalone\<close>, and let
  neither file have a line 6 containing \<open>collapsed\<close>; let \<open>_data\<close> be a directory and the two
  output paths not be directories; let the context give a first chapter name. Then
  \<open>customizeJupyterBook\<close> returns normally and prints nothing, \<open>_data/toc.yml\<close> holds the
  chapter stanza with url \<open>ch1/readme\<close>, followed by the nested entry \<open>Intro\<close> with url
  \<open>ch1/intro\<close>, and the flat entry \<open>Standalone\<close> with url \<open>standalone\<close>, and
  \<open>content/ch1/readme.md\<close> holds the heading and the link \<open>[Intro](intro.md)\<close>.
\<close>

theorem toc_of_sample_book:
  assumes "fs [''content''] = Some (DirE entries)"
    and "entries = [''ch1'', ''standalone.md''] \<or> entries = [''standalone.md'', ''ch1'']"
    and "fs [''content'', ''ch1''] = Some (DirE chapterFiles)"
    and "filter noReadme chapterFiles = [''intro.md'']"
    and "fs [''content'', ''ch1'', ''intro.md''] = Some (FileE intro)"
    and "fs [''content'', ''standalone.md''] = Some (FileE standalone)"
    and "fs [''_data''] = Some (DirE dataFiles)"
    and "\<not> isDirE (fs [''_data'', ''toc.yml''])"
    and "\<not> isDirE (fs [''content'', ''ch1'', ''readme.md''])"
    and "splitLines intro ! 0 = ''# Intro''"
    and "splitLines standalone ! 0 = ''# Standalone''"
    and "\<not> (7 \<le> length (splitLines intro) \<and> sublist ''collapsed'' (splitLines intro ! 6))"
    and "\<not> (7 \<le> length (splitLines standalone) \<and> sublist ''collapsed'' (splitLines standalone ! 6))"
    and "chapterNames ctx = Some (chapterTitle # others)"
    and "chapter = ''- title: '' @ chapterTitle @ [LF] @ ''  url: ch1/readme'' @ [LF]
                 @ ''  not_numbered: true'' @ [LF] @ ''  expand_sections: true'' @ [LF]
                 @ ''  sections: '' @ [LF]
                 @ ''  - title: Intro'' @ [LF] @ ''    url: ch1/intro'' @ [LF]"
    and "flat = ''- title: Standalone'' @ [LF] @ ''  url: standalone'' @ [LF]"
  shows "\<exists>fs' toc. customizeJupyterBook ctx fs = (None, fs', [])
           \<and> fs' [''_data'', ''toc.yml''] = Some (FileE toc)
           \<and> toc = (if entries = [''ch1'', ''standalone.md''] then chapter @ flat else flat @ chapter)
           \<and> sublist chapter toc \<and> sublist flat toc
           \<and> fs' [''content'', ''ch1'', ''readme.md''] = Some (FileE
                (''## Notebooks in this Chapter'' @ [LF] @ ''- [Intro](intro.md)'' @ [LF]))"
proof -
  let ?R = "join [''.'', ''content'', ''ch1'', ''readme.md'']"
  let ?T = "join [''.'', ''_data'', ''toc.yml'']"
  let ?readme = "''## Notebooks in this Chapter'' @ [LF] @ ''- [Intro](intro.md)'' @ [LF]"
  let ?s0 = "\<lparr>tocContent = [], idx = 0, disk = fs, printed = []\<rparr>"
  let ?toc = "if entries = [''ch1'', ''standalone.md''] then chapter @ flat else flat @ chapter"
  have "\<exists>fs1. writeFileSync fs ?R ?readme = Inr fs1
          \<and> foldl (tocEntry ctx) ?s0 entries = \<lparr>tocContent = ?toc, idx = 1, disk = fs1, printed = []\<rparr>"
    using assms(2)
  proof
    assume o: "entries = [''ch1'', ''standalone.md'']"
    obtain fs1 where c: "writeFileSync fs ?R ?readme = Inr fs1"
        "tocEntry ctx ?s0 ''ch1'' = ?s0\<lparr>tocContent := tocContent ?s0 @ chapter, idx := 1, disk := fs1\<rparr>"
      using sample_chapter_entry [of ?s0 chapterFiles intro ctx chapterTitle others]
        assms(3,4,5,9,10,12,14) unfolding assms(15) by auto
    note e1 = writeFileSync_effect [OF c(1) resolve_readme(1) [OF sample_names(1)], simplified]
    let ?s1 = "\<lparr>tocContent = chapter, idx = 1, disk = fs1, printed = []\<rparr>"
    have k1: "disk ?s1 [''content'', ''standalone.md''] = Some (FileE standalone)"
      using e1(3) [of "[''content'', ''standalone.md'']"] assms(6) by simp
    have "tocEntry ctx ?s1 ''standalone.md'' = ?s1\<lparr>tocContent := tocContent ?s1 @ flat\<rparr>"
      unfolding assms(16) by (rule sample_flat_entry [OF k1 assms(11,13)])
    then show ?thesis using c o by auto
  next
    assume o: "entries = [''standalone.md'', ''ch1'']"
    have k0: "disk ?s0 [''content'', ''standalone.md''] = Some (FileE standalone)"
      using assms(6) by simp
    have f: "tocEntry ctx ?s0 ''standalone.md'' = ?s0\<lparr>tocContent := tocContent ?s0 @ flat\<rparr>"
      unfolding assms(16) by (rule sample_flat_entry [OF k0 assms(11,13)])
    let ?s1 = "\<lparr>tocContent = flat, idx = 0, disk = fs, printed = []\<rparr>"
    obtain fs1 where c: "writeFileSync fs ?R ?readme = Inr fs1"
        "tocEntry ctx ?s1 ''ch1'' = ?s1\<lparr>tocContent := tocContent ?s1 @ chapter, idx := 1, disk := fs1\<rparr>"
      using sample_chapter_entry [of ?s1 chapterFiles intro ctx chapterTitle others]
        assms(3,4,5,9,10,12,14) unfolding assms(15) by auto
    show ?thesis using f c o by auto
  qed
  then obtain fs1 where w: "writeFileSync fs ?R ?readme = Inr fs1"
    and loop: "foldl (tocEntry ctx) ?s0 entries = \<lparr>tocContent = ?toc, idx = 1, disk = fs1, printed = []\<rparr>"
    by blast
  note e1 = writeFileSync_effect [OF w resolve_readme(1) [OF sample_names(1)], simplified]
  have d1: "fs1 [''_data''] = Some (DirE dataFiles)" "\<not> isDirE (fs1 [''_data'', ''toc.yml''])"
    using e1(3) [of "[''_data'']"] e1(3) [of "[''_data'', ''toc.yml'']"] assms(7,8) by simp_all
  have b: "fs1 (butlast [''_data'', ''toc.yml'']) = Some (DirE dataFiles)" using d1(1) by simp
  have ne: "[''_data'', ''toc.yml''] \<noteq> []" by simp
  obtain fs2 where f2: "writeFileSync fs1 ?T ?toc = Inr fs2"
    using writeFileSync_outcome(2) [where fs = fs1 and names = dataFiles,
        OF resolve_toc(2) resolve_toc(1) ne b d1(2), of ?toc] by blast
  note e2 = writeFileSync_effect [OF f2 resolve_toc(1), simplified]
  have r: "customizeJupyterBook ctx fs = (None, fs2, [])"
    using assms(1) loop f2 by (simp add: customizeJupyterBook_def readdirSync_def lookup_content Let_def)
  have m: "fs2 [''content'', ''ch1'', ''readme.md''] = Some (FileE ?readme)"
    using e2(3) [of "[''content'', ''ch1'', ''readme.md'']"] e1(2) by simp
  have s1: "sublist chapter ?toc"
    by simp
  have s2: "sublist flat ?toc"
    by simp
  show ?thesis using r e2(2) m s1 s2 by blast
qed



text \<open>
  Claim C5 does not hold as stated: with \<open>intro.md\<close> starting with \<open># Intro\<close> and holding
  \<open>collapsed\<close> in its line 6, the table of contents has the nested entry \<open>Untitled\<close> and no
  entry titled \<open>Intro\<close>, and the readme links \<open>[Untitled](intro.md)\<close>.
\<close>

theorem toc_of_sample_book_counterexample:
  "splitLines collapsedIntro ! 0 = ''# Intro''
   \<and> fst (snd (customizeJupyterBook sampleContext (tocFs collapsedIntro plainStandalone)))
         [''_data'', ''toc.yml''] = Some (FileE untitledToc)
   \<and> \<not> sublist ''title: Intro'' untitledToc
   \<and> fst (snd (customizeJupyterBook sampleContext (tocFs collapsedIntro plainStandalone)))
         [''content'', ''ch1'', ''readme.md'']
       = Some (FileE (''## Notebooks in this Chapter'' @ [LF] @ ''- [Untitled](intro.md)'' @ [LF]))"
proof -
  have 1: "splitLines collapsedIntro ! 0 = ''# Intro''"
    by (simp add: collapsedIntro_def)
  have 2: "fst (snd (customizeJupyterBook sampleContext (tocFs collapsedIntro plainStandalone)))
         [''_data'', ''toc.yml''] = Some (FileE untitledToc)"
    by code_simp
  have "indexOf untitledToc ''title: Intro'' = -1"
    by code_simp
  then have 3: "\<not> sublist ''title: Intro'' untitledToc"
    by (simp add: indexOf_absent)
  have 4: "fst (snd (customizeJupyterBook sampleContext (tocFs collapsedIntro plainStandalone)))
         [''content'', ''ch1'', ''readme.md'']
       = Some (FileE (''## Notebooks in this Chapter'' @ [LF] @ ''- [Untitled](intro.md)'' @ [LF]))"
    by code_simp
  show ?thesis using 1 2 3 4 by blast
qed

theorem toc_of_sample_book_witness:
  "\<exists>fs'. customizeJupyterBook sampleContext (tocFs plainIntro plainStandalone) = (None, fs', [])
     \<and> fs' [''_data'', ''toc.yml''] = Some (FileE
          (''- title: Chapter One'' @ [LF] @ ''  url: ch1/readme'' @ [LF]
           @ ''  not_numbered: true'' @ [LF] @ ''  expand_sections: true'' @ [LF]
           @ ''  sections: '' @ [LF]
           @ ''  - title: Intro'' @ [LF] @ ''    url: ch1/intro'' @ [LF]
           @ ''- title: Standalone'' @ [LF] @ ''  url: standalone'' @ [LF]))
     \<and> fs' [''content'', ''ch1'', ''readme.md''] = Some (FileE
          (''## Notebooks in this Chapter'' @ [LF] @ ''- [Intro](intro.md)'' @ [LF]))"
proof -
  let ?fs = "tocFs plainIntro plainStandalone"
  have h: "?fs [''content''] = Some (DirE [''ch1'', ''standalone.md''])"
    "?fs [''content'', ''ch1''] = Some (DirE [''intro.md''])"
    "filter noReadme [''intro.md''] = [''intro.md'']"
    "?fs [''content'', ''ch1'', ''intro.md''] = Some (FileE plainIntro)"
    "?fs [''content'', ''standalone.md''] = Some (FileE plainStandalone)"
    "?fs [''_data''] = Some (DirE [])"
    "\<not> isDirE (?fs [''_data'', ''toc.yml''])"
    "\<not> isDirE (?fs [''content'', ''ch1'', ''readme.md''])"
    by (simp_all add: tocFs_def isDirE_def noReadme_def)
  have l: "splitLines plainIntro ! 0 = ''# Intro''" "splitLines plainStandalone ! 0 = ''# Standalone''"
    "\<not> (7 \<le> length (splitLines plainIntro) \<and> sublist ''collapsed'' (splitLines plainIntro ! 6))"
    "\<not> (7 \<le> length (splitLines plainStandalone) \<and> sublist ''collapsed'' (splitLines plainStandalone ! 6))"
    by (simp_all add: plainIntro_def plainStandalone_def)
  have c: "chapterNames sampleContext = Some (''Chapter One'' # [])"
    by (simp add: sampleContext_def)
  show ?thesis
    using toc_of_sample_book [OF h(1) _ h(2-8) l c refl refl]
    by auto
qed



section \<open>Settled entries\<close>

lemma settled_quiet:
  assumes "settled ctx fs e" and "validName e"
  shows "afterEntry ctx fs e = fs"
proof (cases "attemptsReadme ctx fs e")
  case False
  then show ?thesis by (simp add: afterEntry_def)
next
  case True
  let ?P = "join [''.'', ''content'', e]"
  let ?r = "[''content'', e, ''readme.md'']"
  obtain names where n: "fs [''content'', e] = Some (DirE names)"
    using attemptsReadme_dir [OF True assms(2)] by blast
  show ?thesis
  proof (cases "readmeText fs ?P")
    case (Inl x)
    then show ?thesis using True by (simp add: afterEntry_def writeToReadme_def)
  next
    case (Inr c)
    then have "fs ?r = Some (FileE c) \<or> isDirE (fs ?r)"
      using assms(1) True by (simp add: settled_def)
    then show ?thesis
    proof
      assume f: "fs ?r = Some (FileE c)"
      have "writeFileSync fs (join [''.'', ''content'', e, ''readme.md'']) c = Inr fs"
        by (rule writeFileSync_present) (simp_all add: resolve_readme [OF assms(2)] f)
      then show ?thesis using True Inr by (simp add: afterEntry_def writeToReadme_def)
    next
      assume "isDirE (fs ?r)"
      then show ?thesis
        using True Inr writeToReadme_cases(2) [where fs = fs and names = names and e = e, OF assms(2) n, of c]
        by (simp add: afterEntry_def)
    qed
  qed
qed

lemma settled_transfer:
  assumes "agree a b" and "wellNamed a" and "wellNamed b" and "validName e"
    and "b [''content'', e, ''readme.md''] = a [''content'', e, ''readme.md'']"
    and "settled ctx a e"
  shows "settled ctx b e"
  using assms(5,6)
  by (simp add: settled_def agree_attemptsReadme [OF assms(1-4)] agree_chapter_loops(2) [OF assms(1-4)])

lemma settled_afterEntry_self:
  assumes "wellNamed fs" and "validName e"
  shows "settled ctx (afterEntry ctx fs e) e"
proof -
  let ?P = "join [''.'', ''content'', e]"
  let ?R = "join [''.'', ''content'', e, ''readme.md'']"
  let ?r = "[''content'', e, ''readme.md'']"
  let ?fs' = "afterEntry ctx fs e"
  note a = afterEntry_agree [OF assms, of ctx]
  have at: "attemptsReadme ctx ?fs' e = attemptsReadme ctx fs e"
    by (rule agree_attemptsReadme [OF agree_sym [OF a(1)] a(2) assms])
  have rt: "readmeText ?fs' ?P = readmeText fs ?P"
    by (rule agree_chapter_loops(2) [OF agree_sym [OF a(1)] a(2) assms])
  have "?fs' ?r = Some (FileE c) \<or> isDirE (?fs' ?r)"
    if h: "attemptsReadme ctx fs e" "readmeText fs ?P = Inr c" for c
  proof -
    obtain names where n: "fs [''content'', e] = Some (DirE names)"
      using attemptsReadme_dir [OF h(1) assms(2)] by blast
    show ?thesis
    proof (cases "isDirE (fs ?r)")
      case True
      then have "?fs' = fs"
        using h writeToReadme_cases(2) [where fs = fs and names = names and e = e, OF assms(2) n, of c]
        by (simp add: afterEntry_def)
      then show ?thesis using True by simp
    next
      case False
      then obtain fs'' where w: "writeToReadme fs ?P e = Inr fs''" "writeFileSync fs ?R c = Inr fs''"
        using h writeToReadme_cases(3) [where fs = fs and names = names and e = e, OF assms(2) n, of c]
        by blast
      have "fs'' ?r = Some (FileE c)"
        using writeFileSync_effect(2) [OF w(2) resolve_readme(1) [OF assms(2)]] by simp
      moreover have "?fs' = fs''" using h(1) w(1) by (simp add: afterEntry_def)
      ultimately show ?thesis by simp
    qed
  qed
  then show ?thesis by (simp add: settled_def at rt)
qed

lemma afterEntry_other_readme:
  assumes "validName e2" and "e \<noteq> e2"
  shows "afterEntry ctx fs e2 [''content'', e, ''readme.md''] = fs [''content'', e, ''readme.md'']"
proof (cases "attemptsReadme ctx fs e2")
  case False
  then show ?thesis by (simp add: afterEntry_def)
next
  case True
  show ?thesis
  proof (cases "writeToReadme fs (join [''.'', ''content'', e2]) e2")
    case (Inl x)
    then show ?thesis using True by (simp add: afterEntry_def)
  next
    case (Inr fs')
    then obtain c where w: "writeFileSync fs (join [''.'', ''content'', e2, ''readme.md'']) c = Inr fs'"
      by (auto simp: writeToReadme_def split: sum.splits)
    have "fs' [''content'', e, ''readme.md''] = fs [''content'', e, ''readme.md'']"
      using writeFileSync_effect(3) [OF w resolve_readme(1) [OF assms(1)], of "[''content'', e, ''readme.md'']"]
        assms(2) by simp
    then show ?thesis using True Inr by (simp add: afterEntry_def)
  qed
qed

lemma settled_afterEntry_other:
  assumes "wellNamed fs" and "validName e" and "validName e2" and "settled ctx fs e"
  shows "settled ctx (afterEntry ctx fs e2) e"
proof (cases "e = e2")
  case True
  then show ?thesis using settled_quiet [OF assms(4,2)] assms(4) by simp
next
  case False
  note a = afterEntry_agree [OF assms(1,3), of ctx]
  show ?thesis
    by (rule settled_transfer [OF a(1) assms(1) a(2) assms(2) afterEntry_other_readme [OF assms(3) False] assms(4)])
qed

section \<open>The loop over the content folder\<close>

lemma foldl_tocEntry_agree:
  assumes "wellNamed (disk s)" and "\<forall>e\<in>set es. validName e"
  shows "agree (disk s) (disk (foldl (tocEntry ctx) s es)) \<and> wellNamed (disk (foldl (tocEntry ctx) s es))"
  using assms
proof (induction es arbitrary: s)
  case Nil
  then show ?case by (simp add: agree_refl)
next
  case (Cons e es)
  have v: "validName e" using Cons.prems(2) by simp
  note a = afterEntry_agree [OF Cons.prems(1) v, of ctx]
  have w: "wellNamed (disk (tocEntry ctx s e))" using a(2) by (simp add: disk_tocEntry)
  have "agree (disk (tocEntry ctx s e)) (disk (foldl (tocEntry ctx) (tocEntry ctx s e) es))
        \<and> wellNamed (disk (foldl (tocEntry ctx) (tocEntry ctx s e) es))"
    using Cons.prems(2) by (intro Cons.IH [OF w]) simp
  moreover have "agree (disk s) (disk (tocEntry ctx s e))" using a(1) by (simp add: disk_tocEntry)
  ultimately show ?case using agree_trans by auto
qed

lemma foldl_tocEntry_settled:
  assumes "wellNamed (disk s)" and "\<forall>e\<in>set es. validName e"
    and "\<forall>e\<in>S. validName e \<and> settled ctx (disk s) e"
  shows "\<forall>e\<in>S \<union> set es. settled ctx (disk (foldl (tocEntry ctx) s es)) e"
  using assms
proof (induction es arbitrary: s S)
  case Nil
  then show ?case by simp
next
  case (Cons e es)
  have v: "validName e" using Cons.prems(2) by simp
  let ?s' = "tocEntry ctx s e"
  have d: "disk ?s' = afterEntry ctx (disk s) e" by (rule disk_tocEntry)
  have w: "wellNamed (disk ?s')" using afterEntry_agree(2) [OF Cons.prems(1) v, of ctx] d by simp
  have 1: "\<forall>x\<in>insert e S. validName x \<and> settled ctx (disk ?s') x"
  proof
    fix x assume "x \<in> insert e S"
    then show "validName x \<and> settled ctx (disk ?s') x"
    proof
      assume "x = e"
      then show ?thesis using v settled_afterEntry_self [OF Cons.prems(1) v, of ctx] d by simp
    next
      assume "x \<in> S"
      then have "validName x" "settled ctx (disk s) x" using Cons.prems(3) by auto
      then show ?thesis using settled_afterEntry_other [OF Cons.prems(1) _ v, of x ctx] d by simp
    qed
  qed
  have "\<forall>x\<in>insert e S \<union> set es. settled ctx (disk (foldl (tocEntry ctx) ?s' es)) x"
    using Cons.prems(2) by (intro Cons.IH [OF w _ 1]) simp
  then show ?case by simp
qed

lemma foldl_tocEntry_second_run:
  assumes "\<forall>e\<in>set es. validName e \<and> settled ctx (disk t) e"
    and "agree (disk s) (disk t)" and "wellNamed (disk s)" and "wellNamed (disk t)"
    and "sameProgress s t"
  shows "sameProgress (foldl (tocEntry ctx) s es) (foldl (tocEntry ctx) t es)
       \<and> disk (foldl (tocEntry ctx) t es) = disk t"
  using assms
proof (induction es arbitrary: s t)
  case Nil
  then show ?case by simp
next
  case (Cons e es)
  have v: "validName e" and st: "settled ctx (disk t) e" using Cons.prems(1) by simp_all
  let ?s' = "tocEntry ctx s e" and ?t' = "tocEntry ctx t e"
  have dt: "disk ?t' = disk t" using settled_quiet [OF st v] by (simp add: disk_tocEntry)
  have p: "sameProgress ?s' ?t'"
    by (rule tocEntry_sameProgress [OF Cons.prems(2,3,4) v Cons.prems(5)])
  note a = afterEntry_agree [OF Cons.prems(3) v, of ctx]
  have ws: "wellNamed (disk ?s')" using a(2) by (simp add: disk_tocEntry)
  have "agree (disk ?s') (disk s)" using a(1) by (simp add: disk_tocEntry agree_sym)
  then have ag: "agree (disk ?s') (disk ?t')" using Cons.prems(2) dt agree_trans by auto
  have "sameProgress (foldl (tocEntry ctx) ?s' es) (foldl (tocEntry ctx) ?t' es)
        \<and> disk (foldl (tocEntry ctx) ?t' es) = disk ?t'"
    using Cons.prems(1,4) dt by (intro Cons.IH [OF _ ag ws _ p]) simp_all
  then show ?case using dt by simp
qed

section \<open>Running the build twice\<close>

text \<open>
  Claim C8. On a file system whose listings hold valid names, a second run of
  \<open>customizeJupyterBook\<close> on what the first run left ends the same way, prints the same
  lines and leaves every file as the first run left it: \<open>_data/toc.yml\<close> and each
  chapter's \<open>readme.md\<close> are rewritten with the same bytes, although the chapters now list
  the \<open>readme.md\<close> of the first run.
\<close>

theorem customizeJupyterBook_idempotent:
  assumes "wellNamed fs"
  shows "customizeJupyterBook ctx (fst (snd (customizeJupyterBook ctx fs))) = customizeJupyterBook ctx fs"
proof (cases "readdirSync fs (join [''.'', ''content''])")
  case (Inl x)
  then show ?thesis by (simp add: customizeJupyterBook_def)
next
  case (Inr es)
  let ?T = "join [''.'', ''_data'', ''toc.yml'']"
  let ?s0 = "\<lparr>tocContent = [], idx = 0, disk = fs, printed = []\<rparr>"
  let ?sn = "foldl (tocEntry ctx) ?s0 es"
  let ?G = "disk ?sn"
  have l: "fs [''content''] = Some (DirE es)"
    using Inr by (auto simp: readdirSync_def lookup_content split: option.splits entry.splits)
  have v: "\<forall>e\<in>set es. validName e" using assms l unfolding wellNamed_def by blast
  have w0: "wellNamed (disk ?s0)" using assms by simp
  have aG: "agree fs ?G" and wG: "wellNamed ?G"
    using foldl_tocEntry_agree [OF w0 v, of ctx] by simp_all
  have sG: "\<forall>e\<in>set es. settled ctx ?G e"
    using foldl_tocEntry_settled [OF w0 v, of "{}" ctx] by simp
  have second: "customizeJupyterBook ctx F
      = (case writeFileSync F ?T (tocContent ?sn) of
           Inl x \<Rightarrow> (Some x, F, printed ?sn)
         | Inr fs' \<Rightarrow> (None, fs', printed ?sn))"
    if F: "agree fs F" "wellNamed F" "\<forall>e\<in>set es. settled ctx F e" for F
  proof -
    let ?t0 = "\<lparr>tocContent = [], idx = 0, disk = F, printed = []\<rparr>"
    let ?tn = "foldl (tocEntry ctx) ?t0 es"
    have "F [''content''] = Some (DirE es)"
      using F(1) l unfolding agree_def by metis
    then have lF: "readdirSync F (join [''.'', ''content'']) = Inr es"
      by (simp add: readdirSync_def lookup_content)
    have "sameProgress ?sn ?tn \<and> disk ?tn = disk ?t0"
      by (rule foldl_tocEntry_second_run) (use F v in \<open>simp_all add: assms sameProgress_def\<close>)
    then have "tocContent ?tn = tocContent ?sn" "printed ?tn = printed ?sn" "disk ?tn = F"
      by (simp_all add: sameProgress_def)
    then show ?thesis using lF by (simp add: customizeJupyterBook_def Let_def split: sum.splits)
  qed
  show ?thesis
  proof (cases "writeFileSync ?G ?T (tocContent ?sn)")
    case (Inl x)
    have r1: "customizeJupyterBook ctx fs = (Some x, ?G, printed ?sn)"
      using Inr Inl by (simp add: customizeJupyterBook_def Let_def)
    have "customizeJupyterBook ctx ?G = (Some x, ?G, printed ?sn)"
      using second [OF aG wG sG] Inl by simp
    then show ?thesis using r1 by simp
  next
    case (Inr F)
    have r1: "customizeJupyterBook ctx fs = (None, F, printed ?sn)"
      using \<open>readdirSync fs (join [''.'', ''content'']) = Inr es\<close> Inr
      by (simp add: customizeJupyterBook_def Let_def)
    note a = agree_write_toc [OF Inr]
    have aF: "agree fs F" using aG a(1) by (rule agree_trans)
    have wF: "wellNamed F"
      by (rule wellNamed_write [OF wG Inr resolve_toc(1)]) (simp_all add: validName_content)
    have sF: "\<forall>e\<in>set es. settled ctx F e"
    proof
      fix e assume e: "e \<in> set es"
      then have "validName e" "settled ctx ?G e" using v sG by auto
      then show "settled ctx F e"
        using settled_transfer [OF a(1) wG wF _ a(2)] by blast
    qed
    have "F (resolve ?T) = Some (FileE (tocContent ?sn))"
      using writeFileSync_effect(2) [OF Inr resolve_toc(1)] by (simp add: resolve_toc)
    then have "writeFileSync F ?T (tocContent ?sn) = Inr F"
      by (rule writeFileSync_present) (rule resolve_toc(2))
    then have "customizeJupyterBook ctx F = (None, F, printed ?sn)"
      using second [OF aF wF sF] by simp
    then show ?thesis using r1 by simp
  qed
qed

lemma wellNamed_tocFs: "wellNamed (tocFs intro standalone)"
  by (auto simp: wellNamed_def tocFs_def validName_def split: if_splits)

theorem customizeJupyterBook_idempotent_witness:
  "wellNamed (tocFs plainIntro plainStandalone)
   \<and> customizeJupyterBook sampleContext
        (fst (snd (customizeJupyterBook sampleContext (tocFs plainIntro plainStandalone))))
       = customizeJupyterBook sampleContext (tocFs plainIntro plainStandalone)
   \<and> fst (snd (customizeJupyterBook sampleContext (tocFs plainIntro plainStandalone)))
        [''content'', ''ch1''] = Some (DirE [''intro.md'', ''readme.md''])"
proof -
  have w: "wellNamed (tocFs plainIntro plainStandalone)" by (rule wellNamed_tocFs)
  have n: "fst (snd (customizeJupyterBook sampleContext (tocFs plainIntro plainStandalone)))
        [''content'', ''ch1''] = Some (DirE [''intro.md'', ''readme.md''])"
    by code_simp
  show ?thesis
    using w customizeJupyterBook_idempotent [OF w, of sampleContext] n by blast
qed

end
